theory Spec2Isabelle
  imports Complex_Main "HOL-Library.AList"
begin

section \<open>Python primitives used by the router\<close>

text \<open>
  The exceptions that the modelled functions can raise.  A \<open>KeyError\<close> carries the
  missing dictionary key.
\<close>

datatype py_error = KeyError string | ZeroDivisionError | ValueError

text \<open>
  \<open>str(n)\<close> for a Python integer: decimal digits, most significant first, with a
  leading minus sign for a negative number.  \<open>digit_char\<close> is only applied to a number
  below ten.  Integers of more than 4300 digits, on which \<open>str\<close> raises in CPython 3.11,
  do not reach it: the ports, weights and link speeds that are printed are far smaller.
\<close>

definition digit_char :: "nat \<Rightarrow> char" where
  "digit_char d = ''0123456789'' ! d"

function str_nat :: "nat \<Rightarrow> string" where
  "str_nat n = (if n < 10 then [digit_char n] else str_nat (n div 10) @ [digit_char (n mod 10)])"
  by pat_completeness auto
termination
  by (relation "measure (\<lambda>n. n)") auto

declare str_nat.simps [simp del]

definition str_int :: "int \<Rightarrow> string" where
  "str_int i = (if i < 0 then CHR ''-'' # str_nat (nat (- i)) else str_nat (nat i))"

text \<open>
  The decimal digits that \<open>\d\<close> matches in an ASCII string, and \<open>int(...)\<close> on a string of
  such digits (\<open>digit_val\<close> is only applied to a digit).  Strings are ASCII here, as the
  reports of the host tools are; Python would also accept the decimal digits of other
  scripts.
\<close>

definition is_digit :: "char \<Rightarrow> bool" where
  "is_digit c \<longleftrightarrow> c \<in> set ''0123456789''"

definition digit_val :: "char \<Rightarrow> nat" where
  "digit_val c = of_char c - 48"

definition int_of_digits :: "string \<Rightarrow> nat" where
  "int_of_digits ds = foldl (\<lambda>acc c. 10 * acc + digit_val c) 0 ds"

text \<open>
  \<open>int(ds)\<close> for a string of digits, as CPython 3.11 runs it: a string of more than 4300
  digits (\<open>sys.int_info.default_max_str_digits\<close>; leading zeros count) raises
  \<open>ValueError\<close>.
\<close>

definition int_max_str_digits :: nat where
  "int_max_str_digits = 4300"

definition py_int :: "string \<Rightarrow> py_error + nat" where
  "py_int ds = (if length ds > int_max_str_digits then Inl ValueError else Inr (int_of_digits ds))"

text \<open>
  \<open>a / b\<close> on two Python integers: true division, which raises \<open>ZeroDivisionError\<close> for
  a zero divisor.  The quotient is read as a real number.
\<close>

definition py_truediv :: "int \<Rightarrow> int \<Rightarrow> py_error + real" where
  "py_truediv a b = (if b = 0 then Inl ZeroDivisionError else Inr (real_of_int a / real_of_int b))"

section \<open>Connection tracker (routing/connection\_tracker.py)\<close>

datatype ConnectionState = NEW | ESTABLISHED | RELATED | INVALID

datatype TrafficType = GENERAL | VOIP | GAMING | STREAMING | BANKING

text \<open>The dataclass \<open>Connection\<close>; the time stamps are Python floats, read as reals.\<close>

record Connection =
  src_ip :: string
  dst_ip :: string
  src_port :: int
  dst_port :: int
  protocol :: string
  state :: ConnectionState
  interface :: string
  mark :: int
  traffic_type :: TrafficType
  created_at :: real
  last_seen :: real
  packets :: int
  bytes :: int

text \<open>
  One entry of \<open>traffic_rules\<close>: the dictionary \<open>{'ports': [...], 'protocols': [...]}\<close>.
  A missing key reads as the empty list (\<open>rules.get('ports', [])\<close>).
\<close>

record traffic_rule =
  ports :: "int list"
  protocols :: "string list"

text \<open>
  The tracker object.  \<open>connections\<close> and \<open>traffic_rules\<close> are Python dictionaries, which
  iterate in insertion order: association lists.  \<open>sticky_sessions\<close> is a Python set.
\<close>

record ConnectionTracker =
  connections :: "(string \<times> Connection) list"
  sticky_sessions :: "string set"
  traffic_rules :: "(TrafficType \<times> traffic_rule) list"

text \<open>The rule table that \<open>__init__\<close> builds, in the order in which it is written.\<close>

definition default_traffic_rules :: "(TrafficType \<times> traffic_rule) list" where
  "default_traffic_rules =
     [(VOIP, \<lparr>ports = [5060, 5061, 5062, 16384, 16385, 16386],
              protocols = [''udp'', ''tcp'']\<rparr>),
      (GAMING, \<lparr>ports = [27015, 27016, 27017, 27018, 27019, 27020, 80, 443, 8080, 8443],
                protocols = [''udp'', ''tcp'']\<rparr>),
      (STREAMING, \<lparr>ports = [1935, 1936, 8080, 8081, 8082, 8083, 554, 8554, 8555],
                   protocols = [''tcp'', ''udp'']\<rparr>),
      (BANKING, \<lparr>ports = [443, 8443, 9443], protocols = [''tcp'']\<rparr>)]"

text \<open>
  The tracker after \<open>__init__\<close> when no custom rules file exists: no connection, no sticky
  session, the built-in rules.
\<close>

definition init_tracker :: ConnectionTracker where
  "init_tracker =
     \<lparr>connections = [], sticky_sessions = {}, traffic_rules = default_traffic_rules\<rparr>"

text \<open>
  \<open>classify_traffic\<close>: the loop over \<open>traffic_rules.items()\<close> returns at the first rule
  whose protocol list holds the protocol and whose port list holds either port.
\<close>

fun classify_rules :: "(TrafficType \<times> traffic_rule) list \<Rightarrow> int \<Rightarrow> int \<Rightarrow> string \<Rightarrow> TrafficType" where
  "classify_rules [] sp dp pr = GENERAL"
| "classify_rules ((ttype, rules) # rest) sp dp pr =
     (if pr \<in> set (protocols rules)
      then (if sp \<in> set (ports rules) \<or> dp \<in> set (ports rules)
            then ttype
            else classify_rules rest sp dp pr)
      else classify_rules rest sp dp pr)"

definition classify_traffic :: "ConnectionTracker \<Rightarrow> int \<Rightarrow> int \<Rightarrow> string \<Rightarrow> TrafficType" where
  "classify_traffic self sp dp pr = classify_rules (traffic_rules self) sp dp pr"

text \<open>\<open>get_connection_key\<close>: the two f-strings, chosen by \<open>src_port < dst_port\<close>.\<close>

definition get_connection_key :: "string \<Rightarrow> string \<Rightarrow> int \<Rightarrow> int \<Rightarrow> string \<Rightarrow> string" where
  "get_connection_key sip dip sp dp pr =
     (if sp < dp
      then sip @ '':'' @ str_int sp @ ''-'' @ dip @ '':'' @ str_int dp @ ''-'' @ pr
      else dip @ '':'' @ str_int dp @ ''-'' @ sip @ '':'' @ str_int sp @ ''-'' @ pr)"

definition conn_key_of :: "Connection \<Rightarrow> string" where
  "conn_key_of c =
     get_connection_key (src_ip c) (dst_ip c) (src_port c) (dst_port c) (protocol c)"

text \<open>
  \<open>track_connection\<close>.  The two calls of \<open>time.time()\<close> are the arguments \<open>t1\<close> and \<open>t2\<close>.
  The stored object is the argument itself, so the time stamps written after the store
  are visible in the table.  The result is the new tracker and the returned boolean.
\<close>

definition track_connection ::
  "ConnectionTracker \<Rightarrow> Connection \<Rightarrow> real \<Rightarrow> real \<Rightarrow> ConnectionTracker \<times> bool" where
  "track_connection self connection t1 t2 =
     (let conn_key = conn_key_of connection;
          tt = classify_traffic self (src_port connection) (dst_port connection)
                 (protocol connection);
          sticky = (if tt \<in> {BANKING, VOIP}
                    then insert conn_key (sticky_sessions self)
                    else sticky_sessions self);
          stored = connection\<lparr>traffic_type := tt, created_at := t1, last_seen := t2\<rparr>
      in (self\<lparr>connections := AList.update conn_key stored (connections self),
                sticky_sessions := sticky\<rparr>,
          conn_key \<in> sticky))"

text \<open>
  \<open>update_connection\<close>.  \<open>iface\<close> is the optional \<open>interface\<close> argument; \<open>if interface:\<close>
  is false for \<open>None\<close> and for the empty string.
\<close>

definition update_connection ::
  "ConnectionTracker \<Rightarrow> string \<Rightarrow> int \<Rightarrow> int \<Rightarrow> string option \<Rightarrow> real \<Rightarrow> ConnectionTracker" where
  "update_connection self conn_key pk nbytes iface now =
     (case map_of (connections self) conn_key of
        None \<Rightarrow> self
      | Some conn \<Rightarrow>
          (let conn1 = conn\<lparr>packets := packets conn + pk, bytes := bytes conn + nbytes,
                             last_seen := now\<rparr>;
               conn2 = (case iface of
                          None \<Rightarrow> conn1
                        | Some i \<Rightarrow> (if i = [] then conn1 else conn1\<lparr>interface := i\<rparr>))
           in self\<lparr>connections := AList.update conn_key conn2 (connections self)\<rparr>))"

text \<open>
  \<open>cleanup_connections\<close>, first loop: the keys collected in \<open>expired_keys\<close>.  The two
  tests are separate \<open>if\<close> statements, so an entry can be appended twice.
\<close>

definition expired_keys_of :: "(string \<times> Connection) list \<Rightarrow> real \<Rightarrow> real \<Rightarrow> string list" where
  "expired_keys_of conns max_age current_time =
     concat (map (\<lambda>(conn_key, connection).
                    (if current_time - last_seen connection > max_age then [conn_key] else [])
                    @ (if state connection = INVALID then [conn_key] else []))
                 conns)"

text \<open>
  Second loop: \<open>del self.connections[conn_key]\<close> raises \<open>KeyError\<close> when the key is
  absent, and \<open>discard\<close> never raises.  The result is the tracker as the loop leaves it
  and the exception, if one was raised.
\<close>

fun remove_expired :: "string list \<Rightarrow> ConnectionTracker \<Rightarrow> ConnectionTracker \<times> py_error option" where
  "remove_expired [] self = (self, None)"
| "remove_expired (conn_key # ks) self =
     (case map_of (connections self) conn_key of
        None \<Rightarrow> (self, Some (KeyError conn_key))
      | Some _ \<Rightarrow>
          remove_expired ks
            (self\<lparr>connections := AList.delete conn_key (connections self),
                   sticky_sessions := sticky_sessions self - {conn_key}\<rparr>))"

definition cleanup_connections ::
  "ConnectionTracker \<Rightarrow> real \<Rightarrow> real \<Rightarrow> ConnectionTracker \<times> py_error option" where
  "cleanup_connections self max_age current_time =
     remove_expired (expired_keys_of (connections self) max_age current_time) self"

section \<open>Health monitor (watchdog/health\_monitor.py)\<close>

datatype HealthStatus = HEALTHY | DEGRADED | FAILED | TESTING

text \<open>
  The dataclass \<open>HealthCheckResult\<close>.  Its field \<open>interface\<close> is \<open>hc_interface\<close> here,
  since \<open>Connection\<close> has a field of that name.  Latency, loss and time stamps are Python
  floats; the code only compares them, and they are read as reals.
\<close>

record HealthCheckResult =
  hc_interface :: string
  status :: HealthStatus
  latency :: real
  packet_loss :: real
  timestamp :: real
  consecutive_failures :: int
  last_success :: real
  error_message :: string

text \<open>One entry of \<open>config['interfaces']\<close>.\<close>

record iface_config =
  name :: string
  gateway :: string
  weight :: int

text \<open>
  The dictionary kept per interface in \<open>self.interfaces\<close>.  The keys \<open>last_recovery_check\<close>
  and \<open>last_success\<close> are read with \<open>.get\<close> and may be absent: options.  The key
  \<open>consecutive_failures\<close> is \<open>info_consecutive_failures\<close> and the key \<open>config\<close> is
  \<open>info_config\<close>, to keep them apart from the fields of the same names.
\<close>

record iface_info =
  info_config :: iface_config
  enabled :: bool
  last_check :: real
  info_consecutive_failures :: int
  total_checks :: int
  successful_checks :: int
  failed_checks :: int
  last_recovery_check :: "real option"
  info_last_success :: "real option"

text \<open>The configuration dictionary \<open>self.config\<close>.\<close>

record monitor_config =
  ping_target :: string
  timeout_seconds :: real
  retry_count :: int
  check_interval :: real
  recovery_interval :: real
  max_latency_ms :: real
  max_packet_loss :: real
  config_interfaces :: "iface_config list"

text \<open>
  The monitor object: \<open>interfaces\<close> and \<open>health_results\<close> are dictionaries (association
  lists, in insertion order).
\<close>

record HealthMonitor =
  interfaces :: "(string \<times> iface_info) list"
  health_results :: "(string \<times> HealthCheckResult) list"
  config :: monitor_config

text \<open>The default configuration written in \<open>__init__\<close>.\<close>

definition default_config :: monitor_config where
  "default_config =
     \<lparr>ping_target = ''1.1.1.1'', timeout_seconds = 2, retry_count = 3, check_interval = 5,
      recovery_interval = 30, max_latency_ms = 2000, max_packet_loss = 5,
      config_interfaces =
        [\<lparr>name = ''eth0'', gateway = ''192.168.100.1'', weight = 2\<rparr>,
         \<lparr>name = ''eth1'', gateway = ''192.168.200.1'', weight = 1\<rparr>]\<rparr>"

text \<open>\<open>_initialize_health_tracking\<close>: the loop over \<open>config['interfaces']\<close>.\<close>

fun initialize_entries :: "iface_config list \<Rightarrow> real \<Rightarrow> HealthMonitor \<Rightarrow> HealthMonitor" where
  "initialize_entries [] current_time self = self"
| "initialize_entries (iface_cfg # rest) current_time self =
     initialize_entries rest current_time
       (self\<lparr>interfaces :=
                AList.update (name iface_cfg)
                  \<lparr>info_config = iface_cfg, enabled = True, last_check = 0,
                   info_consecutive_failures = 0, total_checks = 0, successful_checks = 0,
                   failed_checks = 0, last_recovery_check = None, info_last_success = None\<rparr>
                  (interfaces self),
              health_results :=
                AList.update (name iface_cfg)
                  \<lparr>hc_interface = name iface_cfg, status = TESTING, latency = 0,
                   packet_loss = 0, timestamp = current_time, consecutive_failures = 0,
                   last_success = current_time, error_message = []\<rparr>
                  (health_results self)\<rparr>)"

definition initialize_health_tracking :: "HealthMonitor \<Rightarrow> real \<Rightarrow> HealthMonitor" where
  "initialize_health_tracking self current_time =
     initialize_entries (config_interfaces (config self)) current_time self"

text \<open>The monitor that \<open>__init__\<close> builds from a configuration at a given time.\<close>

definition new_monitor :: "monitor_config \<Rightarrow> real \<Rightarrow> HealthMonitor" where
  "new_monitor cfg current_time =
     initialize_health_tracking \<lparr>interfaces = [], health_results = [], config = cfg\<rparr>
       current_time"

text \<open>
  \<open>_check_interface_health\<close>.  The result of \<open>_run_ping_test\<close>, which catches every
  exception itself, is the argument \<open>ping = (latency, packet_loss, error_msg)\<close>, with the
  loss in percent.  A missing interface raises \<open>KeyError\<close> at the first statement,
  before anything is changed.
\<close>

definition check_interface_health ::
  "HealthMonitor \<Rightarrow> string \<Rightarrow> real \<Rightarrow> real \<times> real \<times> string
     \<Rightarrow> py_error + (HealthMonitor \<times> HealthCheckResult)" where
  "check_interface_health self iface current_time ping =
     (case map_of (interfaces self) iface of
        None \<Rightarrow> Inl (KeyError iface)
      | Some iface_info \<Rightarrow>
          (let info1 = iface_info\<lparr>total_checks := total_checks iface_info + 1,
                                   last_check := current_time\<rparr>;
               lat = fst ping;
               loss = fst (snd ping);
               error_msg = snd (snd ping);
               st = (if loss \<ge> 100 then FAILED
                     else if loss > max_packet_loss (config self)
                             \<or> lat > max_latency_ms (config self) then DEGRADED
                     else HEALTHY);
               info2 = (if loss \<ge> 100 then
                          info1\<lparr>info_consecutive_failures := info_consecutive_failures info1 + 1,
                                failed_checks := failed_checks info1 + 1\<rparr>
                        else if loss > max_packet_loss (config self)
                                \<or> lat > max_latency_ms (config self) then
                          info1\<lparr>info_consecutive_failures := info_consecutive_failures info1 + 1,
                                failed_checks := failed_checks info1 + 1\<rparr>
                        else
                          info1\<lparr>info_consecutive_failures := 0,
                                successful_checks := successful_checks info1 + 1\<rparr>);
               msg = (if loss \<ge> 100 then ''Complete packet loss'' else error_msg);
               health_result =
                 \<lparr>hc_interface = iface, status = st, latency = lat, packet_loss = loss,
                  timestamp = current_time,
                  consecutive_failures = info_consecutive_failures info2,
                  last_success =
                    (if st = HEALTHY then current_time
                     else (case info_last_success info2 of
                             None \<Rightarrow> current_time | Some t \<Rightarrow> t)),
                  error_message = msg\<rparr>
           in Inr (self\<lparr>interfaces := AList.update iface info2 (interfaces self),
                         health_results :=
                           AList.update iface health_result (health_results self)\<rparr>,
                   health_result)))"

text \<open>\<open>_should_trigger_failover\<close>: the two tests, in the order of the source.\<close>

definition should_trigger_failover :: "HealthMonitor \<Rightarrow> string \<Rightarrow> py_error + bool" where
  "should_trigger_failover self iface =
     (case map_of (health_results self) iface of
        None \<Rightarrow> Inl (KeyError iface)
      | Some health_result \<Rightarrow>
          Inr (if consecutive_failures health_result \<ge> retry_count (config self) then True
               else if status health_result = FAILED then True
               else False))"

text \<open>
  The kernel is driven through \<open>subprocess.run\<close>.  A call either returns with a return
  code or raises (for instance when the \<open>ip\<close> binary is missing); which of the two happens
  is decided by the host, a parameter of the model.  The functions below return the list
  of the commands they have started, in order.
\<close>

datatype run_outcome = Returned int | Raised

type_synonym host = "string list \<Rightarrow> run_outcome"

definition flush_cmd :: "string list" where
  "flush_cmd = [''ip'', ''route'', ''flush'', ''table'', ''main'']"

definition add_default_prefix :: "string list" where
  "add_default_prefix = [''ip'', ''route'', ''add'', ''default'']"

text \<open>The words that the loop of \<open>_update_routing_tables\<close> appends for one interface.\<close>

definition nexthop_of :: "string \<Rightarrow> iface_info \<Rightarrow> string list" where
  "nexthop_of iface iface_info =
     [''nexthop'', ''via'', gateway (info_config iface_info), ''dev'', iface,
      ''weight'', str_int (weight (info_config iface_info))]"

fun nexthop_words :: "(string \<times> iface_info) list \<Rightarrow> string list \<Rightarrow> py_error + string list" where
  "nexthop_words ifs [] = Inr []"
| "nexthop_words ifs (iface # rest) =
     (case map_of ifs iface of
        None \<Rightarrow> Inl (KeyError iface)
      | Some iface_info \<Rightarrow>
          (case nexthop_words ifs rest of
             Inl e \<Rightarrow> Inl e
           | Inr ws \<Rightarrow> Inr (nexthop_of iface iface_info @ ws)))"

text \<open>
  \<open>_update_routing_tables\<close>.  The whole body stands in a \<open>try\<close> whose handler only logs:
  when the flush raises, or a lookup in the loop does, nothing more is started.  The
  return code of the add command is only logged.
\<close>

definition update_routing_tables :: "host \<Rightarrow> HealthMonitor \<Rightarrow> string list \<Rightarrow> string list list" where
  "update_routing_tables run self active_interfaces =
     (case run flush_cmd of
        Raised \<Rightarrow> [flush_cmd]
      | Returned _ \<Rightarrow>
          (if active_interfaces \<noteq> [] then
             (case nexthop_words (interfaces self) active_interfaces of
                Inl _ \<Rightarrow> [flush_cmd]
              | Inr ws \<Rightarrow> [flush_cmd, add_default_prefix @ ws])
           else [flush_cmd]))"

text \<open>
  The list comprehension of \<open>_reconfigure_routing\<close>: the health result is looked up only
  for an enabled interface (\<open>and\<close> is short-circuit), and a missing one raises \<open>KeyError\<close>.
\<close>

fun active_interfaces_of ::
  "(string \<times> iface_info) list \<Rightarrow> (string \<times> HealthCheckResult) list \<Rightarrow> py_error + string list" where
  "active_interfaces_of [] hrs = Inr []"
| "active_interfaces_of ((iface, info) # rest) hrs =
     (if enabled info then
        (case map_of hrs iface of
           None \<Rightarrow> Inl (KeyError iface)
         | Some r \<Rightarrow>
             (case active_interfaces_of rest hrs of
                Inl e \<Rightarrow> Inl e
              | Inr act \<Rightarrow> Inr (if status r = HEALTHY then iface # act else act)))
      else active_interfaces_of rest hrs)"

definition reconfigure_routing :: "host \<Rightarrow> HealthMonitor \<Rightarrow> py_error + string list list" where
  "reconfigure_routing run self =
     (case active_interfaces_of (interfaces self) (health_results self) of
        Inl e \<Rightarrow> Inl e
      | Inr active_interfaces \<Rightarrow> Inr (update_routing_tables run self active_interfaces))"

text \<open>
  \<open>_trigger_failover\<close>: disable the interface, set its status to FAILED, reconfigure the
  routing.  The result is the new monitor and the commands started.  An exception
  (a missing key) propagates to the monitoring loop, which logs it; for an interface that
  is not in \<open>self.interfaces\<close> it is raised before anything is changed.
\<close>

definition trigger_failover ::
  "host \<Rightarrow> HealthMonitor \<Rightarrow> string \<Rightarrow> py_error + (HealthMonitor \<times> string list list)" where
  "trigger_failover run self iface =
     (case map_of (interfaces self) iface of
        None \<Rightarrow> Inl (KeyError iface)
      | Some info \<Rightarrow>
          (case map_of (health_results self) iface of
             None \<Rightarrow> Inl (KeyError iface)
           | Some r \<Rightarrow>
               (let s2 = self\<lparr>interfaces :=
                                 AList.update iface (info\<lparr>enabled := False\<rparr>) (interfaces self),
                               health_results :=
                                 AList.update iface (r\<lparr>status := FAILED\<rparr>)
                                   (health_results self)\<rparr>
                in (case reconfigure_routing run s2 of
                      Inl e \<Rightarrow> Inl e
                    | Inr cmds \<Rightarrow> Inr (s2, cmds)))))"

text \<open>
  \<open>_check_recovery\<close>.  \<open>current_time\<close> is the clock read by the function itself,
  \<open>check_time\<close> the one read by the health check it calls.  The entry \<open>iface_info\<close> is one
  object, which the health check updates and which is disabled again afterwards.
\<close>

definition set_enabled :: "string \<Rightarrow> bool \<Rightarrow> (string \<times> iface_info) list \<Rightarrow> (string \<times> iface_info) list" where
  "set_enabled iface b ifs =
     map (\<lambda>(k, info). if k = iface then (k, info\<lparr>enabled := b\<rparr>) else (k, info)) ifs"

definition check_recovery ::
  "HealthMonitor \<Rightarrow> string \<Rightarrow> real \<Rightarrow> real \<Rightarrow> real \<times> real \<times> string
     \<Rightarrow> py_error + (HealthMonitor \<times> bool)" where
  "check_recovery self iface current_time check_time ping =
     (case map_of (interfaces self) iface of
        None \<Rightarrow> Inl (KeyError iface)
      | Some iface_info \<Rightarrow>
          (if enabled iface_info then Inr (self, False)
           else if current_time
                     - (case last_recovery_check iface_info of None \<Rightarrow> 0 | Some t \<Rightarrow> t)
                   < recovery_interval (config self)
           then Inr (self, False)
           else
             (let s1 = self\<lparr>interfaces :=
                              AList.update iface
                                (iface_info\<lparr>last_recovery_check := Some current_time,
                                            enabled := True\<rparr>)
                                (interfaces self)\<rparr>
              in (case check_interface_health s1 iface check_time ping of
                    Inl e \<Rightarrow> Inl e
                  | Inr (s2, health_result) \<Rightarrow>
                      (if status health_result = HEALTHY then Inr (s2, True)
                       else Inr (s2\<lparr>interfaces := set_enabled iface False (interfaces s2)\<rparr>,
                                 False))))))"

text \<open>\<open>manual_interface_control\<close>, with the action as the string it is.\<close>

definition manual_interface_control ::
  "HealthMonitor \<Rightarrow> string \<Rightarrow> string \<Rightarrow> py_error + (HealthMonitor \<times> bool)" where
  "manual_interface_control self iface action =
     (case map_of (interfaces self) iface of
        None \<Rightarrow> Inr (self, False)
      | Some info \<Rightarrow>
          (if action = ''disable'' then
             (case map_of (health_results self) iface of
                None \<Rightarrow> Inl (KeyError iface)
              | Some r \<Rightarrow>
                  Inr (self\<lparr>interfaces :=
                              AList.update iface (info\<lparr>enabled := False\<rparr>) (interfaces self),
                            health_results :=
                              AList.update iface (r\<lparr>status := FAILED\<rparr>)
                                (health_results self)\<rparr>, True))
           else if action = ''enable'' then
             (case map_of (health_results self) iface of
                None \<Rightarrow> Inl (KeyError iface)
              | Some r \<Rightarrow>
                  Inr (self\<lparr>interfaces :=
                              AList.update iface (info\<lparr>enabled := True\<rparr>) (interfaces self),
                            health_results :=
                              AList.update iface (r\<lparr>status := TESTING\<rparr>)
                                (health_results self)\<rparr>, True))
           else Inr (self, False)))"

text \<open>
  The body of the \<open>for\<close> loop of \<open>_monitoring_loop\<close> for one interface: a disabled
  interface is only tested for recovery; an enabled one is checked and failed over when
  \<open>_should_trigger_failover\<close> says so.
\<close>

definition monitor_interface ::
  "host \<Rightarrow> HealthMonitor \<Rightarrow> string \<Rightarrow> real \<Rightarrow> real \<Rightarrow> real \<times> real \<times> string
     \<Rightarrow> py_error + (HealthMonitor \<times> string list list)" where
  "monitor_interface run self iface current_time check_time ping =
     (case map_of (interfaces self) iface of
        None \<Rightarrow> Inl (KeyError iface)
      | Some iface_info \<Rightarrow>
          (if \<not> enabled iface_info then
             (case check_recovery self iface current_time check_time ping of
                Inl e \<Rightarrow> Inl e
              | Inr (s1, _) \<Rightarrow> Inr (s1, []))
           else
             (case check_interface_health self iface check_time ping of
                Inl e \<Rightarrow> Inl e
              | Inr (s1, health_result) \<Rightarrow>
                  (case should_trigger_failover s1 iface of
                     Inl e \<Rightarrow> Inl e
                   | Inr b \<Rightarrow> (if b then trigger_failover run s1 iface else Inr (s1, []))))))"

text \<open>
  \<open>get_interface_stats\<close>.  One entry of the result; \<open>last_check\<close> is kept as the time
  stamp that the source passes to \<open>datetime.fromtimestamp\<close>.
\<close>

definition status_value :: "HealthStatus \<Rightarrow> string" where
  "status_value s =
     (case s of HEALTHY \<Rightarrow> ''healthy'' | DEGRADED \<Rightarrow> ''degraded''
              | FAILED \<Rightarrow> ''failed'' | TESTING \<Rightarrow> ''testing'')"

record interface_stats =
  stats_enabled :: bool
  stats_total_checks :: int
  stats_successful_checks :: int
  stats_failed_checks :: int
  stats_consecutive_failures :: int
  uptime_percentage :: real
  current_status :: string
  current_latency :: real
  current_packet_loss :: real
  stats_last_check :: real

definition uptime_percentage_of :: "iface_info \<Rightarrow> py_error + real" where
  "uptime_percentage_of iface_info =
     (case py_truediv (successful_checks iface_info) (max (total_checks iface_info) 1) of
        Inl e \<Rightarrow> Inl e
      | Inr q \<Rightarrow> Inr (q * 100))"

fun stats_entries ::
  "(string \<times> iface_info) list \<Rightarrow> (string \<times> HealthCheckResult) list
     \<Rightarrow> py_error + (string \<times> interface_stats) list" where
  "stats_entries [] hrs = Inr []"
| "stats_entries ((iface, iface_info) # rest) hrs =
     (case map_of hrs iface of
        None \<Rightarrow> Inl (KeyError iface)
      | Some health_result \<Rightarrow>
          (case uptime_percentage_of iface_info of
             Inl e \<Rightarrow> Inl e
           | Inr u \<Rightarrow>
               (case stats_entries rest hrs of
                  Inl e \<Rightarrow> Inl e
                | Inr stats \<Rightarrow>
                    Inr ((iface,
                          \<lparr>stats_enabled = enabled iface_info,
                           stats_total_checks = total_checks iface_info,
                           stats_successful_checks = successful_checks iface_info,
                           stats_failed_checks = failed_checks iface_info,
                           stats_consecutive_failures = consecutive_failures health_result,
                           uptime_percentage = u,
                           current_status = status_value (status health_result),
                           current_latency = latency health_result,
                           current_packet_loss = packet_loss health_result,
                           stats_last_check = timestamp health_result\<rparr>) # stats))))"

definition get_interface_stats :: "HealthMonitor \<Rightarrow> py_error + (string \<times> interface_stats) list" where
  "get_interface_stats self = stats_entries (interfaces self) (health_results self)"

section \<open>Interface detector (routing/interface\_detector.py)\<close>

text \<open>
  String operations of Python on ASCII text: \<open>s.split(c)\<close> for a one-character
  separator, the first occurrence of a separator string, and \<open>s.strip()\<close>.
\<close>

fun split_acc :: "char \<Rightarrow> string \<Rightarrow> string \<Rightarrow> string list" where
  "split_acc sep acc [] = [rev acc]"
| "split_acc sep acc (x # xs) =
     (if x = sep then rev acc # split_acc sep [] xs else split_acc sep (x # acc) xs)"

definition split_char :: "char \<Rightarrow> string \<Rightarrow> string list" where
  "split_char sep s = split_acc sep [] s"

fun split_once :: "string \<Rightarrow> string \<Rightarrow> (string \<times> string) option" where
  "split_once sep [] = None"
| "split_once sep (x # xs) =
     (if take (length sep) (x # xs) = sep then Some ([], drop (length sep) (x # xs))
      else map_option (\<lambda>(before, after). (x # before, after)) (split_once sep xs))"

definition is_space :: "char \<Rightarrow> bool" where
  "is_space c \<longleftrightarrow>
     c \<in> {CHR '' '', CHR 0x09, CHR 0x0A, CHR 0x0B, CHR 0x0C, CHR 0x0D,
          CHR 0x1C, CHR 0x1D, CHR 0x1E, CHR 0x1F}"

definition strip :: "string \<Rightarrow> string" where
  "strip s = rev (dropWhile is_space (rev (dropWhile is_space s)))"

text \<open>\<open>line.split('Speed:')[1]\<close> for a line that contains \<open>Speed:\<close>.\<close>

definition after_speed_label :: "string \<Rightarrow> string option" where
  "after_speed_label line =
     (case split_once ''Speed:'' line of
        None \<Rightarrow> None
      | Some (before, after) \<Rightarrow>
          (case split_once ''Speed:'' after of
             None \<Rightarrow> Some after
           | Some (field, rest) \<Rightarrow> Some field))"

text \<open>
  \<open>_get_interface_speed\<close>.  Its inputs are what the host answers: \<open>ethtool\<close> either prints
  its report or fails (\<open>CalledProcessError\<close>, \<open>FileNotFoundError\<close>), and the file
  \<open>/sys/class/net/<name>/speed\<close> is absent, unreadable as an integer (\<open>IOError\<close> or the
  \<open>ValueError\<close> of \<open>int\<close>, both caught), or holds an integer.  The file is only read in
  the handler of the failure.
\<close>

datatype ethtool_outcome = Ethtool_stdout string | Ethtool_failed

datatype sys_speed_file = No_file | Unreadable | Speed_value int

fun first_speed_line :: "string list \<Rightarrow> string option" where
  "first_speed_line [] = None"
| "first_speed_line (line # rest) =
     (case after_speed_label line of
        Some field \<Rightarrow> Some (strip field)
      | None \<Rightarrow> first_speed_line rest)"

definition get_interface_speed :: "ethtool_outcome \<Rightarrow> sys_speed_file \<Rightarrow> string option" where
  "get_interface_speed ethtool speed_file =
     (case ethtool of
        Ethtool_stdout out \<Rightarrow> first_speed_line (split_char (CHR 0x0A) out)
      | Ethtool_failed \<Rightarrow>
          (case speed_file of
             Speed_value speed_mbps \<Rightarrow>
               (if speed_mbps > 0 then Some (str_int speed_mbps @ ''Mb/s'') else None)
           | _ \<Rightarrow> None))"

text \<open>
  \<open>re.search(r'(\d+)', speed)\<close>: the first maximal run of digits, if there is a digit.
\<close>

definition search_digits :: "string \<Rightarrow> string option" where
  "search_digits s =
     (let grp = takeWhile is_digit (dropWhile (\<lambda>c. \<not> is_digit c) s)
      in if grp = [] then None else Some grp)"

text \<open>
  \<open>_suggest_weight_based_on_speed\<close>; \<open>not speed\<close> holds for \<open>None\<close> and for the empty string.
  The conversion \<open>int(speed_match.group(1))\<close> is not guarded, so its \<open>ValueError\<close> leaves
  the function.
\<close>

definition suggest_weight_based_on_speed :: "string option \<Rightarrow> py_error + int" where
  "suggest_weight_based_on_speed speed =
     (case speed of
        None \<Rightarrow> Inr 1
      | Some sp \<Rightarrow>
          (if sp = [] then Inr 1
           else (case search_digits sp of
                   None \<Rightarrow> Inr 1
                 | Some grp \<Rightarrow>
                     (case py_int grp of
                        Inl e \<Rightarrow> Inl e
                      | Inr n \<Rightarrow>
                          (let speed_mbps = int n
                           in if speed_mbps \<ge> 1000 then Inr 3
                              else if speed_mbps \<ge> 100 then Inr 2
                              else Inr 1)))))"

section \<open>Notions used to state the properties\<close>

subsection \<open>Connection tracker\<close>

text \<open>The format shared by the two f-strings of \<open>get_connection_key\<close>.\<close>

definition flow_key_format :: "string \<Rightarrow> int \<Rightarrow> string \<Rightarrow> int \<Rightarrow> string \<Rightarrow> string" where
  "flow_key_format a p b q pr =
     a @ '':'' @ str_int p @ ''-'' @ b @ '':'' @ str_int q @ ''-'' @ pr"

text \<open>
  A connection as the kernel reports it: no address contains the separator \<open>-\<close> of the
  key format (neither dotted IPv4 nor IPv6 notation does) and no port is negative.
\<close>

definition well_formed_connection :: "Connection \<Rightarrow> bool" where
  "well_formed_connection c \<longleftrightarrow>
     CHR ''-'' \<notin> set (src_ip c) \<and> CHR ''-'' \<notin> set (dst_ip c) \<and>
     0 \<le> src_port c \<and> 0 \<le> dst_port c"

text \<open>
  The trackers that the public operations can produce from a fresh tracker (with any
  rule table, since \<open>_load_rules\<close> may have merged custom rules).  A cleanup that raised
  leaves a tracker behind, which is reachable as well.
\<close>

inductive reachable_tracker :: "ConnectionTracker \<Rightarrow> bool" where
  reach_init:
    "reachable_tracker \<lparr>connections = [], sticky_sessions = {}, traffic_rules = rules\<rparr>"
| reach_track:
    "reachable_tracker s \<Longrightarrow> well_formed_connection c \<Longrightarrow>
     reachable_tracker (fst (track_connection s c t1 t2))"
| reach_update:
    "reachable_tracker s \<Longrightarrow> reachable_tracker (update_connection s k pk nb i now)"
| reach_cleanup:
    "reachable_tracker s \<Longrightarrow> reachable_tracker (fst (cleanup_connections s max_age now))"

text \<open>Every sticky key is the key of some well-formed connection of a sticky class.\<close>

definition sticky_classified :: "ConnectionTracker \<Rightarrow> bool" where
  "sticky_classified s \<longleftrightarrow>
     (\<forall>k \<in> sticky_sessions s. \<exists>c. well_formed_connection c \<and> conn_key_of c = k \<and>
        classify_traffic s (src_port c) (dst_port c) (protocol c) \<in> {BANKING, VOIP})"

text \<open>The inclusion \<open>sticky_sessions \<subseteq> keys(connections)\<close>.\<close>

definition sticky_tracked :: "ConnectionTracker \<Rightarrow> bool" where
  "sticky_tracked self \<longleftrightarrow> sticky_sessions self \<subseteq> fst ` set (connections self)"

text \<open>Sample inputs: the SIP call of the module's own test, and a stale invalid entry.\<close>

definition sip_call :: Connection where
  "sip_call =
     \<lparr>src_ip = ''192.168.1.100'', dst_ip = ''93.184.216.34'', src_port = 5060,
      dst_port = 12345, protocol = ''udp'', state = NEW, interface = ''eth0'', mark = 0,
      traffic_type = GENERAL, created_at = 0, last_seen = 0, packets = 0, bytes = 0\<rparr>"

definition stale_invalid :: Connection where
  "stale_invalid =
     \<lparr>src_ip = ''192.168.1.100'', dst_ip = ''93.184.216.34'', src_port = 5060,
      dst_port = 12345, protocol = ''udp'', state = INVALID, interface = ''eth0'', mark = 0,
      traffic_type = GENERAL, created_at = 0, last_seen = 0, packets = 0, bytes = 0\<rparr>"

subsection \<open>Health monitor\<close>

text \<open>
  The failover rule as the specification words it, for the sample \<open>ping\<close> that the
  monitoring loop takes on interface \<open>iface\<close>.  A failover has been triggered when the
  loop has started routing commands and left the interface disabled with status FAILED.
  According to the rule this happens exactly when the count of consecutive failures,
  after the sample, has reached \<open>retry_count\<close>, or the interface was healthy before and
  the sample shows full loss.
\<close>

definition failover_rule_as_specified ::
  "host \<Rightarrow> HealthMonitor \<Rightarrow> string \<Rightarrow> real \<Rightarrow> real \<Rightarrow> real \<times> real \<times> string \<Rightarrow> bool" where
  "failover_rule_as_specified run s iface t t1 ping \<longleftrightarrow>
     (case check_interface_health s iface t1 ping of
        Inl _ \<Rightarrow> False
      | Inr (s1, r) \<Rightarrow>
          (case monitor_interface run s iface t t1 ping of
             Inl _ \<Rightarrow> False
           | Inr (s2, cmds) \<Rightarrow>
               (cmds \<noteq> []
                \<and> map_option enabled (map_of (interfaces s2) iface) = Some False
                \<and> map_option status (map_of (health_results s2) iface) = Some FAILED)
               = (retry_count (config s) \<le> consecutive_failures r
                  \<or> (map_option status (map_of (health_results s) iface) = Some HEALTHY
                     \<and> fst (snd ping) \<ge> 100))))"

text \<open>The entries of \<open>self.interfaces\<close> that are enabled and whose status is HEALTHY.\<close>

definition healthy_enabled :: "HealthMonitor \<Rightarrow> (string \<times> iface_info) list" where
  "healthy_enabled s =
     filter (\<lambda>(iface, info). enabled info
               \<and> map_option status (map_of (health_results s) iface) = Some HEALTHY)
       (interfaces s)"

text \<open>Every interface has a health result, as after \<open>_initialize_health_tracking\<close>.\<close>

definition results_present :: "HealthMonitor \<Rightarrow> bool" where
  "results_present s \<longleftrightarrow> fst ` set (interfaces s) \<subseteq> fst ` set (health_results s)"

text \<open>The monitors that the operations can produce from a freshly built one.\<close>

inductive reachable_monitor :: "HealthMonitor \<Rightarrow> bool" where
  mon_init: "reachable_monitor (new_monitor cfg t)"
| mon_check:
    "reachable_monitor s \<Longrightarrow> check_interface_health s iface t ping = Inr (s1, r) \<Longrightarrow>
     reachable_monitor s1"
| mon_failover:
    "reachable_monitor s \<Longrightarrow> trigger_failover run s iface = Inr (s1, cmds) \<Longrightarrow>
     reachable_monitor s1"
| mon_recovery:
    "reachable_monitor s \<Longrightarrow> check_recovery s iface t t1 ping = Inr (s1, b) \<Longrightarrow>
     reachable_monitor s1"
| mon_manual:
    "reachable_monitor s \<Longrightarrow> manual_interface_control s iface action = Inr (s1, b) \<Longrightarrow>
     reachable_monitor s1"

text \<open>No interface has more successful checks than checks.\<close>

definition counters_consistent :: "HealthMonitor \<Rightarrow> bool" where
  "counters_consistent s \<longleftrightarrow>
     (\<forall>(iface, info) \<in> set (interfaces s).
        0 \<le> successful_checks info \<and> successful_checks info \<le> total_checks info)"

definition monitor_invariant :: "HealthMonitor \<Rightarrow> bool" where
  "monitor_invariant s \<longleftrightarrow> counters_consistent s \<and> results_present s"

text \<open>
  Sample inputs: the monitor built from the default configuration at time 0, the same
  monitor after one good probe on eth0, and a host on which every command returns 0.
\<close>

definition boot_monitor :: HealthMonitor where
  "boot_monitor = new_monitor default_config 0"

definition after_good_probe :: HealthMonitor where
  "after_good_probe =
     (case check_interface_health boot_monitor ''eth0'' 5 (12, 0, []) of
        Inr (s1, r) \<Rightarrow> s1
      | Inl e \<Rightarrow> boot_monitor)"

definition obliging_host :: host where
  "obliging_host cmd = Returned 0"

text \<open>
  Further sample inputs: the monitor after a good probe on eth0 and on eth1, and a host
  without the \<open>ip\<close> binary, on which every call raises.
\<close>

definition after_two_good_probes :: HealthMonitor where
  "after_two_good_probes =
     (case check_interface_health after_good_probe ''eth1'' 5 (20, 0, []) of
        Inr (s1, r) \<Rightarrow> s1
      | Inl e \<Rightarrow> after_good_probe)"

definition host_without_ip :: host where
  "host_without_ip cmd = Raised"

text \<open>The monitor built from the default configuration after eth0 was disabled by hand.\<close>

definition eth0_disabled :: HealthMonitor where
  "eth0_disabled =
     (case manual_interface_control boot_monitor ''eth0'' ''disable'' of
        Inr (s1, b) \<Rightarrow> s1
      | Inl e \<Rightarrow> boot_monitor)"

subsection \<open>Interface detector\<close>

text \<open>
  What \<open>ethtool\<close> prints after \<open>Speed:\<close>: the speed in Mb/s as an unsigned number, or
  \<open>Unknown!\<close>.  \<open>ethtool_report\<close> is a report whose first line with the label is that
  line, after the lines \<open>before\<close> and an indentation, and followed by any text.
\<close>

datatype reported_speed = Speed_unknown | Speed_mbps nat

definition speed_field :: "reported_speed \<Rightarrow> string" where
  "speed_field sp =
     (case sp of Speed_unknown \<Rightarrow> ''Unknown!'' | Speed_mbps n \<Rightarrow> str_nat n @ ''Mb/s'')"

definition ethtool_report :: "string list \<Rightarrow> string \<Rightarrow> reported_speed \<Rightarrow> string \<Rightarrow> string" where
  "ethtool_report before indent sp rest =
     concat (map (\<lambda>l. l @ [CHR 0x0A]) before)
       @ indent @ ''Speed: '' @ speed_field sp @ [CHR 0x0A] @ rest"

definition mentions_speed :: "string \<Rightarrow> bool" where
  "mentions_speed l \<longleftrightarrow> (\<exists>a b. l = a @ ''Speed:'' @ b)"

text \<open>
  The weight rule as the specification words it, for a detected speed (\<open>None\<close> when no
  speed is known): 3 from 1 Gb/s on, 2 from 100 Mb/s on, 1 otherwise.
\<close>

definition weight_as_specified :: "reported_speed option \<Rightarrow> int" where
  "weight_as_specified speed =
     (case speed of
        None \<Rightarrow> 1
      | Some Speed_unknown \<Rightarrow> 1
      | Some (Speed_mbps mbps) \<Rightarrow> (if mbps \<ge> 1000 then 3 else if mbps \<ge> 100 then 2 else 1))"

section \<open>Properties of the connection tracker\<close>

subsection \<open>Decimal rendering\<close>

lemma str_nat_small: "n < 10 \<Longrightarrow> str_nat n = [digit_char n]"
  by (simp add: str_nat.simps)

lemma str_nat_large: "10 \<le> n \<Longrightarrow> str_nat n = str_nat (n div 10) @ [digit_char (n mod 10)]"
  by (subst str_nat.simps) simp

lemma below_ten: "d < 10 \<Longrightarrow> d \<in> {0, 1, 2, 3, 4, 5, 6, 7, 8, 9::nat}"
  by auto

lemma digit_val_digit_char: "d < 10 \<Longrightarrow> digit_val (digit_char d) = d"
  by (drule below_ten) (auto simp: digit_val_def digit_char_def)

lemma is_digit_digit_char: "d < 10 \<Longrightarrow> is_digit (digit_char d)"
  by (drule below_ten) (auto simp: is_digit_def digit_char_def)

lemma int_of_digits_snoc: "int_of_digits (ds @ [c]) = 10 * int_of_digits ds + digit_val c"
  by (simp add: int_of_digits_def)

lemma int_of_digits_str_nat: "int_of_digits (str_nat n) = n"
proof (induction n rule: str_nat.induct)
  case (1 n)
  show ?case
  proof (cases "n < 10")
    case True
    then show ?thesis by (simp add: str_nat_small int_of_digits_def digit_val_digit_char)
  next
    case False
    then have "int_of_digits (str_nat n) = 10 * int_of_digits (str_nat (n div 10)) + digit_val (digit_char (n mod 10))"
      by (simp add: str_nat_large int_of_digits_snoc)
    also have "\<dots> = 10 * (n div 10) + n mod 10"
      using False "1.IH" by (simp add: digit_val_digit_char)
    finally show ?thesis by simp
  qed
qed

lemma str_nat_digits: "c \<in> set (str_nat n) \<Longrightarrow> is_digit c"
proof (induction n rule: str_nat.induct)
  case (1 n)
  show ?case
  proof (cases "n < 10")
    case True
    with "1.prems" show ?thesis by (simp add: str_nat_small is_digit_digit_char)
  next
    case False
    with "1.prems" have "c \<in> set (str_nat (n div 10)) \<or> c = digit_char (n mod 10)"
      by (auto simp add: str_nat_large)
    then show ?thesis using "1.IH" False by (auto simp: is_digit_digit_char)
  qed
qed

lemma str_nat_inj: "str_nat n = str_nat m \<Longrightarrow> n = m"
proof -
  assume "str_nat n = str_nat m"
  then have "int_of_digits (str_nat n) = int_of_digits (str_nat m)" by simp
  then show "n = m" by (simp only: int_of_digits_str_nat)
qed

lemma str_int_nonneg: "0 \<le> i \<Longrightarrow> str_int i = str_nat (nat i)"
  by (simp add: str_int_def)

lemma str_int_inj: "0 \<le> i \<Longrightarrow> 0 \<le> j \<Longrightarrow> str_int i = str_int j \<Longrightarrow> i = j"
  using str_nat_inj[of "nat i" "nat j"] by (simp add: str_int_nonneg)

lemma is_digit_not_sep: "is_digit c \<Longrightarrow> c \<noteq> CHR ''-'' \<and> c \<noteq> CHR '':''"
  by (auto simp: is_digit_def)

lemma str_int_no_dash: "0 \<le> i \<Longrightarrow> CHR ''-'' \<notin> set (str_int i)"
  using str_nat_digits is_digit_not_sep by (fastforce simp: str_int_nonneg)

lemma str_int_no_colon: "0 \<le> i \<Longrightarrow> CHR '':'' \<notin> set (str_int i)"
  using str_nat_digits is_digit_not_sep by (fastforce simp: str_int_nonneg)


subsection \<open>Flow keys\<close>

lemma get_connection_key_sym:
  "sp \<noteq> dp \<Longrightarrow> get_connection_key a b sp dp pr = get_connection_key b a dp sp pr"
  by (simp add: get_connection_key_def)

text \<open>
  C4.  The key of a flow and the key of its reverse direction are meant to be equal for
  every pair of endpoints.  With equal ports the comparison \<open>src_port < dst_port\<close> is
  false in both directions, each direction puts its own destination first, and the two
  keys differ: for the SIP flow from 10.0.0.1:5060 to 10.0.0.2:5060 over udp the forward
  key is not the reverse key.
\<close>

theorem get_connection_key_equal_ports_differ:
  "get_connection_key ''10.0.0.1'' ''10.0.0.2'' 5060 5060 ''udp''
     \<noteq> get_connection_key ''10.0.0.2'' ''10.0.0.1'' 5060 5060 ''udp''"
  by (simp add: get_connection_key_def)

text \<open>The key format can be read back: the ports and the protocol are determined by it.\<close>

lemma split_at_first:
  "c \<notin> set x \<Longrightarrow> c \<notin> set x' \<Longrightarrow> x @ c # r = x' @ c # r' \<Longrightarrow> x = x' \<and> r = r'"
proof (induction x arbitrary: x')
  case Nil
  then show ?case by (cases x') auto
next
  case (Cons a x)
  then show ?case by (cases x') auto
qed

lemma split_at_last:
  assumes "c \<notin> set y" "c \<notin> set y'" "x @ c # y = x' @ c # y'"
  shows "x = x' \<and> y = y'"
proof -
  from assms(3) have "rev (x @ c # y) = rev (x' @ c # y')" by simp
  then have "rev y @ c # rev x = rev y' @ c # rev x'" by simp
  moreover have "c \<notin> set (rev y)" "c \<notin> set (rev y')" using assms(1,2) by simp_all
  ultimately have "rev y = rev y' \<and> rev x = rev x'"
    by (rule split_at_first[rotated 2])
  then show ?thesis by simp
qed

lemma endpoint_inj:
  assumes "0 \<le> p" "0 \<le> p'" "a @ CHR '':'' # str_int p = a' @ CHR '':'' # str_int p'"
  shows "p = p'"
proof -
  have "CHR '':'' \<notin> set (str_int p)" "CHR '':'' \<notin> set (str_int p')"
    using assms(1,2) by (simp_all add: str_int_no_colon)
  from split_at_last[OF this assms(3)] have "str_int p = str_int p'" by simp
  with assms(1,2) show ?thesis by (rule str_int_inj)
qed

lemma flow_key_format_inj:
  assumes a: "CHR ''-'' \<notin> set a" "CHR ''-'' \<notin> set a'"
      and b: "CHR ''-'' \<notin> set b" "CHR ''-'' \<notin> set b'"
      and p: "0 \<le> p" "0 \<le> p'" and q: "0 \<le> q" "0 \<le> q'"
      and eq: "flow_key_format a p b q pr = flow_key_format a' p' b' q' pr'"
  shows "p = p' \<and> q = q' \<and> pr = pr'"
proof -
  let ?x = "a @ CHR '':'' # str_int p" and ?x' = "a' @ CHR '':'' # str_int p'"
  let ?y = "b @ CHR '':'' # str_int q" and ?y' = "b' @ CHR '':'' # str_int q'"
  have nx: "CHR ''-'' \<notin> set ?x" "CHR ''-'' \<notin> set ?x'"
    using a p by (simp_all add: str_int_no_dash)
  have ny: "CHR ''-'' \<notin> set ?y" "CHR ''-'' \<notin> set ?y'"
    using b q by (simp_all add: str_int_no_dash)
  from eq have "?x @ CHR ''-'' # (?y @ CHR ''-'' # pr) = ?x' @ CHR ''-'' # (?y' @ CHR ''-'' # pr')"
    by (simp add: flow_key_format_def)
  from split_at_first[OF nx this]
  have x: "?x = ?x'" and rest: "?y @ CHR ''-'' # pr = ?y' @ CHR ''-'' # pr'" by simp_all
  from split_at_first[OF ny rest] have y: "?y = ?y'" and pr: "pr = pr'" by simp_all
  from endpoint_inj[OF p x] endpoint_inj[OF q y] pr show ?thesis by simp
qed

lemma classify_rules_sym: "classify_rules R p q pr = classify_rules R q p pr"
  by (induction R p q pr rule: classify_rules.induct) auto


subsection \<open>Classification\<close>

text \<open>
  C5.  A TCP connection from the ephemeral port 52344 to port 443 is classified GAMING,
  not BANKING: the GAMING rule lists 443 for tcp and stands before the BANKING rule in
  the table.
\<close>

theorem classify_traffic_443_is_gaming:
  "classify_traffic init_tracker 52344 443 ''tcp'' = GAMING"
  by (simp add: classify_traffic_def init_tracker_def default_traffic_rules_def)

lemma conn_key_canon:
  assumes "well_formed_connection d"
  shows "\<exists>a b p q. conn_key_of d = flow_key_format a p b q (protocol d) \<and>
           CHR ''-'' \<notin> set a \<and> CHR ''-'' \<notin> set b \<and> 0 \<le> p \<and> 0 \<le> q \<and>
           (\<forall>R. classify_rules R (src_port d) (dst_port d) (protocol d)
                = classify_rules R p q (protocol d))"
proof (cases "src_port d < dst_port d")
  case True
  then have "conn_key_of d =
      flow_key_format (src_ip d) (src_port d) (dst_ip d) (dst_port d) (protocol d)"
    by (simp add: conn_key_of_def get_connection_key_def flow_key_format_def)
  with assms show ?thesis unfolding well_formed_connection_def by blast
next
  case False
  then have "conn_key_of d =
      flow_key_format (dst_ip d) (dst_port d) (src_ip d) (src_port d) (protocol d)"
    by (simp add: conn_key_of_def get_connection_key_def flow_key_format_def)
  moreover have "\<forall>R. classify_rules R (src_port d) (dst_port d) (protocol d)
                = classify_rules R (dst_port d) (src_port d) (protocol d)"
    using classify_rules_sym by blast
  ultimately show ?thesis using assms unfolding well_formed_connection_def by blast
qed

lemma conn_key_same_class:
  assumes "well_formed_connection c" "well_formed_connection c'" "conn_key_of c = conn_key_of c'"
  shows "classify_rules R (src_port c) (dst_port c) (protocol c)
       = classify_rules R (src_port c') (dst_port c') (protocol c')"
proof -
  from conn_key_canon[OF assms(1)] obtain a b p q where
    k: "conn_key_of c = flow_key_format a p b q (protocol c)"
    and w: "CHR ''-'' \<notin> set a" "CHR ''-'' \<notin> set b" "0 \<le> p" "0 \<le> q"
    and cl: "classify_rules R (src_port c) (dst_port c) (protocol c) = classify_rules R p q (protocol c)"
    by blast
  from conn_key_canon[OF assms(2)] obtain a' b' p' q' where
    k': "conn_key_of c' = flow_key_format a' p' b' q' (protocol c')"
    and w': "CHR ''-'' \<notin> set a'" "CHR ''-'' \<notin> set b'" "0 \<le> p'" "0 \<le> q'"
    and cl': "classify_rules R (src_port c') (dst_port c') (protocol c') = classify_rules R p' q' (protocol c')"
    by blast
  from k k' assms(3) have "flow_key_format a p b q (protocol c) = flow_key_format a' p' b' q' (protocol c')"
    by simp
  from flow_key_format_inj[OF w(1) w'(1) w(2) w'(2) w(3) w'(3) w(4) w'(4) this]
  have "p = p'" "q = q'" "protocol c = protocol c'" by simp_all
  with cl cl' show ?thesis by simp
qed

lemma remove_expired_rules: "traffic_rules (fst (remove_expired ks s)) = traffic_rules s"
  by (induction ks s rule: remove_expired.induct) (auto split: option.splits)

lemma remove_expired_sticky: "sticky_sessions (fst (remove_expired ks s)) \<subseteq> sticky_sessions s"
  by (induction ks s rule: remove_expired.induct) (auto split: option.splits)

lemma sticky_classified_track:
  assumes "sticky_classified s" "well_formed_connection c"
  shows "sticky_classified (fst (track_connection s c t1 t2))"
  using assms unfolding sticky_classified_def
  by (auto simp: track_connection_def Let_def classify_traffic_def)

lemma sticky_classified_update:
  "sticky_classified s \<Longrightarrow> sticky_classified (update_connection s k pk nb i now)"
  unfolding sticky_classified_def
  by (auto simp: update_connection_def Let_def classify_traffic_def split: option.splits)

lemma sticky_classified_cleanup:
  assumes "sticky_classified s"
  shows "sticky_classified (fst (cleanup_connections s max_age now))"
  using assms remove_expired_sticky[of "expired_keys_of (connections s) max_age now" s]
  unfolding sticky_classified_def cleanup_connections_def classify_traffic_def
  by (simp add: remove_expired_rules subset_iff)

lemma reachable_sticky_classified: "reachable_tracker s \<Longrightarrow> sticky_classified s"
proof (induction rule: reachable_tracker.induct)
  case (reach_init rules)
  show ?case by (simp add: sticky_classified_def)
next
  case (reach_track s c t1 t2)
  then show ?case by (simp add: sticky_classified_track)
next
  case (reach_update s k pk nb i now)
  then show ?case by (simp add: sticky_classified_update)
next
  case (reach_cleanup s max_age now)
  then show ?case by (simp add: sticky_classified_cleanup)
qed


subsection \<open>Sticky sessions\<close>

text \<open>What \<open>track_connection\<close> returns and stores, in any tracker.\<close>

lemma track_connection_result:
  "snd (track_connection s c t1 t2)
     = (classify_traffic s (src_port c) (dst_port c) (protocol c) \<in> {BANKING, VOIP}
        \<or> conn_key_of c \<in> sticky_sessions s)"
  by (auto simp: track_connection_def Let_def)

text \<open>
  C6.  In every tracker that the operations can produce, tracking a well-formed connection
  returns True exactly when its class is BANKING or VOIP, its key is in the sticky set
  afterwards exactly in that case, and the connection is stored under its key with the
  class and the time stamps written into it.
\<close>

theorem track_connection_sticky_iff:
  assumes "reachable_tracker s" and "well_formed_connection c"
  shows "snd (track_connection s c t1 t2)
           = (classify_traffic s (src_port c) (dst_port c) (protocol c) \<in> {BANKING, VOIP})
       \<and> (conn_key_of c \<in> sticky_sessions (fst (track_connection s c t1 t2))
           \<longleftrightarrow> classify_traffic s (src_port c) (dst_port c) (protocol c) \<in> {BANKING, VOIP})
       \<and> map_of (connections (fst (track_connection s c t1 t2))) (conn_key_of c)
           = Some (c\<lparr>traffic_type := classify_traffic s (src_port c) (dst_port c) (protocol c),
                      created_at := t1, last_seen := t2\<rparr>)"
proof -
  let ?tt = "classify_traffic s (src_port c) (dst_port c) (protocol c)"
  have old: "conn_key_of c \<in> sticky_sessions s \<Longrightarrow> ?tt \<in> {BANKING, VOIP}"
  proof -
    assume "conn_key_of c \<in> sticky_sessions s"
    with reachable_sticky_classified[OF assms(1)] obtain c' where
      c': "well_formed_connection c'" "conn_key_of c' = conn_key_of c"
          "classify_traffic s (src_port c') (dst_port c') (protocol c') \<in> {BANKING, VOIP}"
      unfolding sticky_classified_def by blast
    from conn_key_same_class[OF assms(2) c'(1) c'(2)[symmetric]] c'(3)
    show ?thesis by (simp add: classify_traffic_def)
  qed
  have r: "snd (track_connection s c t1 t2) = (?tt \<in> {BANKING, VOIP} \<or> conn_key_of c \<in> sticky_sessions s)"
    by (auto simp: track_connection_def Let_def)
  have m: "(conn_key_of c \<in> sticky_sessions (fst (track_connection s c t1 t2)))
        = (?tt \<in> {BANKING, VOIP} \<or> conn_key_of c \<in> sticky_sessions s)"
    by (auto simp: track_connection_def Let_def)
  have st: "map_of (connections (fst (track_connection s c t1 t2))) (conn_key_of c)
           = Some (c\<lparr>traffic_type := ?tt, created_at := t1, last_seen := t2\<rparr>)"
    by (simp add: track_connection_def Let_def AList.update_conv')
  from r m st old show ?thesis by blast
qed


theorem track_connection_sticky_iff_witness:
  "reachable_tracker init_tracker \<and> well_formed_connection sip_call
   \<and> snd (track_connection init_tracker sip_call 10 10)
   \<and> conn_key_of sip_call \<in> sticky_sessions (fst (track_connection init_tracker sip_call 10 10))"
proof -
  have r: "reachable_tracker init_tracker"
    unfolding init_tracker_def by (rule reach_init)
  have w: "well_formed_connection sip_call"
    by (simp add: well_formed_connection_def sip_call_def)
  have cl: "classify_traffic init_tracker (src_port sip_call) (dst_port sip_call)
              (protocol sip_call) = VOIP"
    by (simp add: classify_traffic_def init_tracker_def default_traffic_rules_def sip_call_def)
  from track_connection_sticky_iff[OF r w, of 10 10] cl r w show ?thesis by simp
qed

subsection \<open>Cleanup\<close>

lemma keys_update: "fst ` set (AList.update k v al) = insert k (fst ` set al)"
  by (simp add: AList.dom_update)

lemma keys_delete: "fst ` set (AList.delete k al) = fst ` set al - {k}"
  by (induct al) auto


text \<open>
  C8.  \<open>cleanup_connections\<close> is meant to complete for every table.  A connection that is
  both older than \<open>max_age\<close> and INVALID is appended to \<open>expired_keys\<close> twice; the first
  round deletes it from the table and from the sticky set, the second \<open>del\<close> raises
  \<open>KeyError\<close>.  Here the table holds one such connection, tracked at time 0 and cleaned
  up at time 4000 with \<open>max_age = 3600\<close>.
\<close>

theorem cleanup_connections_raises_on_stale_invalid:
  "cleanup_connections (fst (track_connection init_tracker stale_invalid 0 0)) 3600 4000
     = (init_tracker, Some (KeyError (conn_key_of stale_invalid)))"
  by (simp add: cleanup_connections_def expired_keys_of_def track_connection_def Let_def
      classify_traffic_def init_tracker_def default_traffic_rules_def stale_invalid_def)

text \<open>
  When no entry is both too old and INVALID, the cleanup completes and keeps exactly the
  entries that are neither; the keys it removes leave the sticky set as well.
\<close>

lemma remove_expired_completes:
  assumes "distinct ks" and "set ks \<subseteq> fst ` set (connections s)"
  shows "remove_expired ks s
       = (s\<lparr>connections := filter (\<lambda>(k, c). k \<notin> set ks) (connections s),
             sticky_sessions := sticky_sessions s - set ks\<rparr>, None)"
  using assms
proof (induction ks arbitrary: s)
  case Nil
  show ?case by simp
next
  case (Cons k ks)
  from Cons.prems(2) have "k \<in> fst ` set (connections s)" by simp
  then obtain c where c: "map_of (connections s) k = Some c"
    by (metis map_of_eq_None_iff not_Some_eq)
  let ?s1 = "s\<lparr>connections := AList.delete k (connections s),
                sticky_sessions := sticky_sessions s - {k}\<rparr>"
  from Cons.prems have d: "distinct ks" and sub: "set ks \<subseteq> fst ` set (connections ?s1)"
    by (auto simp: keys_delete)
  have "remove_expired (k # ks) s = remove_expired ks ?s1" using c by simp
  also have "\<dots> = (?s1\<lparr>connections := filter (\<lambda>(k, c). k \<notin> set ks) (connections ?s1),
             sticky_sessions := sticky_sessions ?s1 - set ks\<rparr>, None)"
    by (rule Cons.IH[OF d sub])
  also have "filter (\<lambda>(k, c). k \<notin> set ks) (connections ?s1)
           = filter (\<lambda>(k', c). k' \<notin> set (k # ks)) (connections s)"
    by (auto simp: AList.delete_eq intro!: filter_cong)
  also have "sticky_sessions ?s1 - set ks = sticky_sessions s - set (k # ks)" by auto
  finally show ?case by simp
qed

lemma expired_keys_of_single:
  assumes "\<forall>(k, c) \<in> set conns. \<not> (now - last_seen c > max_age \<and> state c = INVALID)"
  shows "expired_keys_of conns max_age now
       = map fst (filter (\<lambda>(k, c). now - last_seen c > max_age \<or> state c = INVALID) conns)"
  using assms unfolding expired_keys_of_def
  by (induction conns) auto

lemma cleanup_connections_completes:
  assumes "distinct (map fst (connections s))"
      and "\<forall>(k, c) \<in> set (connections s). \<not> (now - last_seen c > max_age \<and> state c = INVALID)"
  shows "cleanup_connections s max_age now
       = (s\<lparr>connections :=
               filter (\<lambda>(k, c). \<not> now - last_seen c > max_age \<and> state c \<noteq> INVALID)
                 (connections s),
             sticky_sessions :=
               sticky_sessions s - set (expired_keys_of (connections s) max_age now)\<rparr>, None)"
proof -
  let ?ex = "\<lambda>(k, c). now - last_seen c > max_age \<or> state c = INVALID"
  let ?ks = "expired_keys_of (connections s) max_age now"
  have ks: "?ks = map fst (filter ?ex (connections s))"
    by (rule expired_keys_of_single[OF assms(2)])
  have d: "distinct ?ks"
    unfolding ks using assms(1) by (rule distinct_map_filter)
  have sub: "set ?ks \<subseteq> fst ` set (connections s)"
    unfolding ks by auto
  have "\<And>k c. (k, c) \<in> set (connections s) \<Longrightarrow> (k \<in> set ?ks) = ?ex (k, c)"
  proof -
    fix k c assume kc: "(k, c) \<in> set (connections s)"
    show "(k \<in> set ?ks) = ?ex (k, c)"
    proof
      assume "k \<in> set ?ks"
      then obtain c' where c': "(k, c') \<in> set (connections s)" "?ex (k, c')"
        unfolding ks by auto
      from assms(1) kc c'(1) have "c' = c" by (meson eq_key_imp_eq_value)
      with c'(2) show "?ex (k, c)" by simp
    next
      assume "?ex (k, c)"
      with kc show "k \<in> set ?ks" unfolding ks by force
    qed
  qed
  then have f: "filter (\<lambda>(k, c). k \<notin> set ?ks) (connections s)
        = filter (\<lambda>(k, c). \<not> now - last_seen c > max_age \<and> state c \<noteq> INVALID) (connections s)"
    by (auto intro!: filter_cong)
  show ?thesis
    unfolding cleanup_connections_def remove_expired_completes[OF d sub] f ..
qed


subsection \<open>The sticky set stays inside the table\<close>

lemma sticky_tracked_remove_expired:
  "sticky_tracked s \<Longrightarrow> sticky_tracked (fst (remove_expired ks s))"
proof (induction ks arbitrary: s)
  case Nil then show ?case by simp
next
  case (Cons k ks)
  show ?case
  proof (cases "map_of (connections s) k")
    case None then show ?thesis using Cons.prems by simp
  next
    case (Some c)
    let ?s' = "s\<lparr>connections := AList.delete k (connections s), sticky_sessions := sticky_sessions s - {k}\<rparr>"
    have "sticky_tracked ?s'"
      using Cons.prems by (auto simp: sticky_tracked_def keys_delete) 
    from Cons.IH[OF this] show ?thesis using Some by simp
  qed
qed

lemma sticky_tracked_track: "sticky_tracked s \<Longrightarrow> sticky_tracked (fst (track_connection s c t1 t2))"
  by (auto simp: sticky_tracked_def track_connection_def Let_def keys_update)

lemma sticky_tracked_update: "sticky_tracked s \<Longrightarrow> sticky_tracked (update_connection s k p b i n)"
  by (auto simp: sticky_tracked_def update_connection_def Let_def keys_update split: option.splits)


text \<open>
  C9.  \<open>sticky_sessions \<subseteq> keys(connections)\<close> holds in the fresh tracker and is preserved by
  \<open>track_connection\<close>, by \<open>update_connection\<close> and by \<open>cleanup_connections\<close>; the tracker
  that \<open>cleanup_connections\<close> leaves behind satisfies it whether the call completed or
  raised.
\<close>

theorem sticky_sessions_subset_connections:
  "sticky_tracked init_tracker
   \<and> (sticky_tracked s \<longrightarrow> sticky_tracked (fst (track_connection s c t1 t2)))
   \<and> (sticky_tracked s \<longrightarrow> sticky_tracked (update_connection s k pk nb i now))
   \<and> (sticky_tracked s \<longrightarrow> sticky_tracked (fst (cleanup_connections s max_age now)))"
  by (simp add: sticky_tracked_track sticky_tracked_update sticky_tracked_remove_expired
      cleanup_connections_def)
     (simp add: sticky_tracked_def init_tracker_def)

theorem sticky_sessions_subset_connections_witness:
  "sticky_tracked (fst (track_connection init_tracker stale_invalid 0 0))
   \<and> sticky_tracked (fst (track_connection
         (fst (track_connection init_tracker stale_invalid 0 0)) sip_call 1 1))
   \<and> sticky_tracked (update_connection
         (fst (track_connection init_tracker stale_invalid 0 0))
         (conn_key_of stale_invalid) 1 40 (Some ''eth1'') 4000)
   \<and> sticky_tracked (fst (cleanup_connections
         (fst (track_connection init_tracker stale_invalid 0 0)) 3600 4000))"
proof -
  have h: "sticky_tracked (fst (track_connection init_tracker stale_invalid 0 0))"
    using sticky_sessions_subset_connections[of init_tracker stale_invalid 0 0] by simp
  with sticky_sessions_subset_connections
         [of "fst (track_connection init_tracker stale_invalid 0 0)" sip_call 1 1
             "conn_key_of stale_invalid" 1 40 "Some ''eth1''" 4000 3600]
  show ?thesis by simp
qed

section \<open>Properties of the health monitor\<close>

subsection \<open>Verdict of a health check\<close>

lemma boot_monitor_eth0:
  "map_of (interfaces boot_monitor) ''eth0''
     = Some \<lparr>info_config = \<lparr>name = ''eth0'', gateway = ''192.168.100.1'', weight = 2\<rparr>,
             enabled = True, last_check = 0, info_consecutive_failures = 0, total_checks = 0,
             successful_checks = 0, failed_checks = 0, last_recovery_check = None,
             info_last_success = None\<rparr>"
  by (simp add: boot_monitor_def new_monitor_def initialize_health_tracking_def
      default_config_def)

lemma config_initialize_entries: "config (initialize_entries cs t s) = config s"
  by (induction cs t s rule: initialize_entries.induct) simp_all

lemma config_new_monitor: "config (new_monitor cfg t) = cfg"
  by (simp add: new_monitor_def initialize_health_tracking_def config_initialize_entries)

text \<open>
  C2.  A health check on a known interface, for a probe whose loss (in percent, as
  \<open>_run_ping_test\<close> reports it) is at most 100, returns: FAILED exactly when the loss is
  total; DEGRADED exactly when it is not total and the loss exceeds \<open>max_packet_loss\<close> or
  the latency exceeds \<open>max_latency_ms\<close>; HEALTHY otherwise.  The count of consecutive
  failures is zero when the verdict is HEALTHY and one more than before otherwise, both in
  the result and in the interface's entry.
\<close>

theorem check_interface_health_verdict:
  assumes "map_of (interfaces s) i = Some info" and "loss \<le> 100"
  shows "\<exists>s1 r info1. check_interface_health s i t (lat, loss, msg) = Inr (s1, r)
     \<and> (status r = FAILED \<longleftrightarrow> loss = 100)
     \<and> (status r = DEGRADED \<longleftrightarrow>
           loss \<noteq> 100 \<and> (loss > max_packet_loss (config s) \<or> lat > max_latency_ms (config s)))
     \<and> (status r = HEALTHY \<longleftrightarrow>
           loss \<noteq> 100 \<and> \<not> (loss > max_packet_loss (config s) \<or> lat > max_latency_ms (config s)))
     \<and> consecutive_failures r
          = (if status r = HEALTHY then 0 else info_consecutive_failures info + 1)
     \<and> map_of (interfaces s1) i = Some info1
     \<and> info_consecutive_failures info1 = consecutive_failures r
     \<and> map_of (health_results s1) i = Some r"
  using assms
  by (simp add: check_interface_health_def Let_def AList.update_conv')


theorem check_interface_health_verdict_witness:
  "(7::real) \<le> 100
   \<and> (\<exists>s1 r. check_interface_health boot_monitor ''eth0'' 5 (30, 7, []) = Inr (s1, r)
          \<and> status r = DEGRADED \<and> consecutive_failures r = 1)"
proof -
  have "(7::real) \<le> 100" by simp
  from check_interface_health_verdict[OF boot_monitor_eth0 this, of 5 30 "[]"]
  obtain s1 r where
    "check_interface_health boot_monitor ''eth0'' 5 (30, 7, []) = Inr (s1, r)"
    "status r = DEGRADED \<longleftrightarrow>
       (7::real) \<noteq> 100 \<and> (7 > max_packet_loss (config boot_monitor)
                       \<or> 30 > max_latency_ms (config boot_monitor))"
    "consecutive_failures r = (if status r = HEALTHY then 0 else 0 + 1)"
    by auto
  then show ?thesis
    by (auto simp: boot_monitor_def config_new_monitor default_config_def)
qed

lemma check_interface_health_counts:
  assumes "check_interface_health s i t ping = Inr (s1, r)"
  shows "\<exists>info info1. map_of (interfaces s) i = Some info \<and> map_of (interfaces s1) i = Some info1
          \<and> total_checks info1 = total_checks info + 1
          \<and> successful_checks info1
              = (if status r = HEALTHY then successful_checks info + 1 else successful_checks info)"
  using assms
  by (auto simp: check_interface_health_def Let_def AList.update_conv' split: option.splits)

subsection \<open>Routing reconfiguration\<close>

lemmas probe_defs = after_good_probe_def boot_monitor_def new_monitor_def
  initialize_health_tracking_def default_config_def check_interface_health_def Let_def

lemma active_interfaces_of_eq:
  assumes "fst ` set ifs \<subseteq> fst ` set hrs"
  shows "active_interfaces_of ifs hrs
       = Inr (map fst (filter (\<lambda>(i, info). enabled info
                 \<and> map_option status (map_of hrs i) = Some HEALTHY) ifs))"
  using assms
proof (induction ifs)
  case Nil
  show ?case by simp
next
  case (Cons e ifs)
  obtain i info where e: "e = (i, info)" by (cases e)
  from Cons.prems e have "i \<in> fst ` set hrs" by simp
  then obtain r where r: "map_of hrs i = Some r"
    by (metis map_of_eq_None_iff not_Some_eq)
  from Cons.prems have "fst ` set ifs \<subseteq> fst ` set hrs" by simp
  from Cons.IH[OF this] e r show ?case by simp
qed

lemma nexthop_words_eq:
  assumes "distinct (map fst ifs)" and "set es \<subseteq> set ifs"
  shows "nexthop_words ifs (map fst es)
       = Inr (concat (map (\<lambda>(i, info). nexthop_of i info) es))"
  using assms(2)
proof (induction es)
  case Nil
  show ?case by simp
next
  case (Cons e es)
  obtain i info where e: "e = (i, info)" by (cases e)
  with Cons.prems have "(i, info) \<in> set ifs" by simp
  with assms(1) have "map_of ifs i = Some info" by simp
  moreover from Cons.prems have "set es \<subseteq> set ifs" by simp
  ultimately show ?case using Cons.IH e by simp
qed


lemma healthy_enabled_set:
  assumes "distinct (map fst (interfaces s))"
  shows "set (map fst (healthy_enabled s))
       = {iface. \<exists>info r. map_of (interfaces s) iface = Some info \<and> enabled info
            \<and> map_of (health_results s) iface = Some r \<and> status r = HEALTHY}"
  using assms by (auto simp: healthy_enabled_def image_iff)

lemmas two_probe_defs = after_two_good_probes_def probe_defs

text \<open>
  C1, as stated, fails when the flush command raises (on a host without the \<open>ip\<close>
  binary, say): the handler of \<open>_update_routing_tables\<close> logs the error and nothing more is
  started, so after the good probe on eth0 the set of enabled and healthy interfaces is
  not empty and yet no add command is issued.
\<close>

theorem reconfigure_routing_flush_raises:
  "map fst (healthy_enabled after_good_probe) = [''eth0'']
   \<and> reconfigure_routing host_without_ip after_good_probe
       = Inr [[''ip'', ''route'', ''flush'', ''table'', ''main'']]"
  by (simp add: healthy_enabled_def probe_defs reconfigure_routing_def update_routing_tables_def
      host_without_ip_def flush_cmd_def)

text \<open>
  C1, amended.  When every interface has a health result and the interface names are
  distinct (they are dictionary keys), \<open>_reconfigure_routing\<close> starts the flush; if the
  flush raised, or no interface is enabled with status HEALTHY, it starts nothing else;
  otherwise it starts one add command for the default route with one nexthop group per
  enabled interface of status HEALTHY, in the order of \<open>self.interfaces\<close>, each group
  naming the interface's configured gateway, the interface itself and its configured
  weight.  The interfaces so listed are exactly the enabled ones with a HEALTHY result.
\<close>

theorem reconfigure_routing_nexthops:
  assumes "results_present s" and "distinct (map fst (interfaces s))"
  shows "reconfigure_routing run s
       = Inr (if run [''ip'', ''route'', ''flush'', ''table'', ''main''] = Raised
                 \<or> healthy_enabled s = []
              then [[''ip'', ''route'', ''flush'', ''table'', ''main'']]
              else [[''ip'', ''route'', ''flush'', ''table'', ''main''],
                    [''ip'', ''route'', ''add'', ''default'']
                      @ concat (map (\<lambda>(iface, info).
                           [''nexthop'', ''via'', gateway (info_config info), ''dev'', iface,
                            ''weight'', str_int (weight (info_config info))])
                          (healthy_enabled s))])
     \<and> set (map fst (healthy_enabled s))
       = {iface. \<exists>info r. map_of (interfaces s) iface = Some info \<and> enabled info
            \<and> map_of (health_results s) iface = Some r \<and> status r = HEALTHY}"
proof -
  from assms(1) have act: "active_interfaces_of (interfaces s) (health_results s)
      = Inr (map fst (healthy_enabled s))"
    unfolding results_present_def healthy_enabled_def by (rule active_interfaces_of_eq)
  have "set (healthy_enabled s) \<subseteq> set (interfaces s)"
    by (auto simp: healthy_enabled_def)
  from nexthop_words_eq[OF assms(2) this]
  have nh: "nexthop_words (interfaces s) (map fst (healthy_enabled s))
      = Inr (concat (map (\<lambda>(iface, info). nexthop_of iface info) (healthy_enabled s)))" .
  have words: "(\<lambda>(iface, info). nexthop_of iface info)
      = (\<lambda>(iface, info). [''nexthop'', ''via'', gateway (info_config info), ''dev'', iface,
                            ''weight'', str_int (weight (info_config info))])"
    by (simp add: nexthop_of_def)
  have "reconfigure_routing run s
       = Inr (if run [''ip'', ''route'', ''flush'', ''table'', ''main''] = Raised
                 \<or> healthy_enabled s = []
              then [[''ip'', ''route'', ''flush'', ''table'', ''main'']]
              else [[''ip'', ''route'', ''flush'', ''table'', ''main''],
                    [''ip'', ''route'', ''add'', ''default'']
                      @ concat (map (\<lambda>(iface, info).
                           [''nexthop'', ''via'', gateway (info_config info), ''dev'', iface,
                            ''weight'', str_int (weight (info_config info))])
                          (healthy_enabled s))])"
    by (cases "run flush_cmd")
       (simp_all add: reconfigure_routing_def act update_routing_tables_def nh words
          flush_cmd_def add_default_prefix_def)
  with healthy_enabled_set[OF assms(2)] show ?thesis by blast
qed

theorem reconfigure_routing_nexthops_witness:
  "results_present after_two_good_probes
   \<and> distinct (map fst (interfaces after_two_good_probes))
   \<and> reconfigure_routing obliging_host after_two_good_probes
       = Inr [[''ip'', ''route'', ''flush'', ''table'', ''main''],
              [''ip'', ''route'', ''add'', ''default'',
               ''nexthop'', ''via'', ''192.168.100.1'', ''dev'', ''eth0'', ''weight'', ''2'',
               ''nexthop'', ''via'', ''192.168.200.1'', ''dev'', ''eth1'', ''weight'', ''1'']]
   \<and> reconfigure_routing obliging_host boot_monitor
       = Inr [[''ip'', ''route'', ''flush'', ''table'', ''main'']]"
proof -
  have p: "results_present after_two_good_probes"
    by (simp add: results_present_def two_probe_defs)
  have d: "distinct (map fst (interfaces after_two_good_probes))"
    by (simp add: two_probe_defs)
  have e: "map (\<lambda>(iface, info). (iface, gateway (info_config info), weight (info_config info)))
             (healthy_enabled after_two_good_probes)
      = [(''eth0'', ''192.168.100.1'', 2), (''eth1'', ''192.168.200.1'', 1)]"
    by (simp add: healthy_enabled_def two_probe_defs)
  have p0: "results_present boot_monitor"
    by (simp add: results_present_def probe_defs)
  have d0: "distinct (map fst (interfaces boot_monitor))"
    by (simp add: probe_defs)
  have e0: "healthy_enabled boot_monitor = []"
    by (simp add: healthy_enabled_def probe_defs)
  have w: "str_int 2 = ''2''" "str_int 1 = ''1''"
    by (simp_all add: str_int_def str_nat_small digit_char_def)
  have h: "healthy_enabled after_two_good_probes \<noteq> []"
    using e by auto
  have c: "concat (map (\<lambda>(iface, info).
              [''nexthop'', ''via'', gateway (info_config info), ''dev'', iface,
               ''weight'', str_int (weight (info_config info))])
             (healthy_enabled after_two_good_probes))
      = concat (map (\<lambda>(iface, gw, w). [''nexthop'', ''via'', gw, ''dev'', iface, ''weight'', str_int w])
          (map (\<lambda>(iface, info). (iface, gateway (info_config info), weight (info_config info)))
             (healthy_enabled after_two_good_probes)))"
    by (simp add: comp_def split_def)
  from reconfigure_routing_nexthops[of after_two_good_probes obliging_host, OF p d]
       reconfigure_routing_nexthops[of boot_monitor obliging_host, OF p0 d0] p d
  show ?thesis
    by (simp add: h c e e0 w obliging_host_def)
qed

subsection \<open>What a failover does\<close>

text \<open>
  A failover returns when every interface has a health result; it leaves the interface
  disabled and FAILED, and the route that it programs does not use the interface.  In
  the monitoring loop, a sample with full loss on an enabled interface ends in a failover.
\<close>

lemma reconfigure_routing_returns:
  assumes "results_present s"
  shows "\<exists>cmds. reconfigure_routing run s = Inr cmds"
  using active_interfaces_of_eq[of "interfaces s" "health_results s"] assms
  by (simp add: reconfigure_routing_def results_present_def)

lemma trigger_failover_result:
  assumes "results_present s" and "map_of (interfaces s) i = Some info"
  shows "\<exists>s2 cmds. trigger_failover run s i = Inr (s2, cmds)
          \<and> reconfigure_routing run s2 = Inr cmds
          \<and> map_option enabled (map_of (interfaces s2) i) = Some False
          \<and> map_option status (map_of (health_results s2) i) = Some FAILED
          \<and> i \<notin> fst ` set (healthy_enabled s2)"
proof -
  from assms(2) have "i \<in> fst ` set (interfaces s)"
    by (force dest: map_of_SomeD)
  with assms(1) have "i \<in> fst ` set (health_results s)"
    unfolding results_present_def by blast
  then obtain r where r: "map_of (health_results s) i = Some r"
    by (metis map_of_eq_None_iff not_Some_eq)
  let ?s2 = "s\<lparr>interfaces := AList.update i (info\<lparr>enabled := False\<rparr>) (interfaces s),
                health_results := AList.update i (r\<lparr>status := FAILED\<rparr>) (health_results s)\<rparr>"
  from assms(1) have "results_present ?s2"
    unfolding results_present_def by (auto simp: keys_update)
  from reconfigure_routing_returns[OF this, of run] obtain cmds where
    c: "reconfigure_routing run ?s2 = Inr cmds" by blast
  have t: "trigger_failover run s i = Inr (?s2, cmds)"
    using assms(2) r c by (simp add: trigger_failover_def Let_def)
  have h: "i \<notin> fst ` set (healthy_enabled ?s2)"
    by (auto simp: healthy_enabled_def AList.update_conv')
  from t c h show ?thesis
    by (intro exI[of _ ?s2] exI[of _ cmds]) (simp add: AList.update_conv')
qed

lemma monitor_interface_lost_sample:
  assumes "results_present s" and "map_of (interfaces s) i = Some info" and "enabled info"
      and "loss \<ge> 100"
  shows "\<exists>s2 cmds. monitor_interface run s i t t1 (lat, loss, msg) = Inr (s2, cmds)
          \<and> map_option enabled (map_of (interfaces s2) i) = Some False
          \<and> map_option status (map_of (health_results s2) i) = Some FAILED
          \<and> i \<notin> fst ` set (healthy_enabled s2)"
proof -
  obtain s1 r where
    c: "check_interface_health s i t1 (lat, loss, msg) = Inr (s1, r)"
    and k: "fst ` set (interfaces s1) = insert i (fst ` set (interfaces s))"
           "fst ` set (health_results s1) = insert i (fst ` set (health_results s))"
    and i1: "map_of (interfaces s1) i \<noteq> None"
    and f: "should_trigger_failover s1 i = Inr True"
    using assms(2,4)
    by (simp add: check_interface_health_def should_trigger_failover_def Let_def
        AList.update_conv' keys_update)
  from assms(1) k have "results_present s1"
    unfolding results_present_def by auto
  moreover from i1 obtain info1 where "map_of (interfaces s1) i = Some info1" by auto
  ultimately obtain s2 cmds where
    "trigger_failover run s1 i = Inr (s2, cmds)"
    "map_option enabled (map_of (interfaces s2) i) = Some False"
    "map_option status (map_of (health_results s2) i) = Some FAILED"
    "i \<notin> fst ` set (healthy_enabled s2)"
    using trigger_failover_result[of s1 i info1 run] by blast
  with c f assms(2,3) show ?thesis
    by (simp add: monitor_interface_def)
qed


subsection \<open>Failover decision in the monitoring loop\<close>

lemma reconfigure_routing_starts_flush:
  "reconfigure_routing run s = Inr cmds \<Longrightarrow> cmds \<noteq> []"
  by (auto simp: reconfigure_routing_def update_routing_tables_def
      split: sum.splits run_outcome.splits if_splits)

lemma check_recovery_returns:
  assumes "map_of (interfaces s) i = Some info"
  shows "\<exists>s2 b. check_recovery s i t t1 ping = Inr (s2, b)"
  using assms
  by (auto simp add: check_recovery_def check_interface_health_def Let_def AList.update_conv')

lemma check_interface_health_failures:
  assumes "check_interface_health s i t (lat, loss, msg) = Inr (s1, r)"
      and "map_of (interfaces s) i = Some info"
  shows "consecutive_failures r
           = (if status r = HEALTHY then 0 else info_consecutive_failures info + 1)"
    and "status r = (if loss \<ge> 100 then FAILED
                     else if loss > max_packet_loss (config s) \<or> lat > max_latency_ms (config s)
                     then DEGRADED else HEALTHY)"
proof -
  have tot: "(100 \<le> loss) \<or> (\<not> 100 \<le> loss \<and> (loss > max_packet_loss (config s) \<or> lat > max_latency_ms (config s)))
      \<or> (\<not> 100 \<le> loss \<and> \<not> (loss > max_packet_loss (config s) \<or> lat > max_latency_ms (config s)))"
    by blast
  from tot assms show "consecutive_failures r
           = (if status r = HEALTHY then 0 else info_consecutive_failures info + 1)"
    by (elim disjE) (auto simp: check_interface_health_def Let_def)
  from tot assms show "status r = (if loss \<ge> 100 then FAILED
                     else if loss > max_packet_loss (config s) \<or> lat > max_latency_ms (config s)
                     then DEGRADED else HEALTHY)"
    by (elim disjE) (auto simp: check_interface_health_def Let_def)
qed

text \<open>
  C3, as the specification words it, fails: on the freshly built monitor (eth0 enabled,
  in status TESTING, no failure counted, \<open>retry_count = 3\<close>) the loop fails eth0 over on
  the first sample with full loss, although the count has only reached 1 and the
  interface was not healthy before.
\<close>

theorem failover_rule_as_specified_fails:
  "\<not> failover_rule_as_specified obliging_host boot_monitor ''eth0'' 5 5
       (0, 100, ''Ping timeout'')"
  by (simp add: failover_rule_as_specified_def monitor_interface_def check_interface_health_def
      should_trigger_failover_def trigger_failover_def reconfigure_routing_def
      update_routing_tables_def obliging_host_def boot_monitor_def new_monitor_def
      initialize_health_tracking_def default_config_def Let_def flush_cmd_def)

text \<open>
  C3, amended.  For an enabled interface and any sample, the monitoring loop triggers the
  failover (it runs \<open>_trigger_failover\<close>, which starts the routing commands and leaves the
  interface disabled with status FAILED) exactly when the count of consecutive failures,
  after the sample, has reached \<open>retry_count\<close> or the sample shows full loss, whatever the
  status of the interface was before; otherwise it starts no command and the interface
  stays enabled with the verdict of the sample.  So every sample with full loss on an
  enabled interface triggers the failover.  For a disabled interface the loop only runs
  the recovery check and starts no command.
\<close>

theorem monitor_interface_failover_iff:
  assumes "results_present s" and "map_of (interfaces s) i = Some info"
  shows "(enabled info \<longrightarrow>
           (\<exists>s1 r s2 cmds.
              check_interface_health s i t1 (lat, loss, msg) = Inr (s1, r)
              \<and> monitor_interface run s i t t1 (lat, loss, msg) = Inr (s2, cmds)
              \<and> (retry_count (config s) \<le> consecutive_failures r \<or> loss \<ge> 100 \<longrightarrow>
                   trigger_failover run s1 i = Inr (s2, cmds) \<and> cmds \<noteq> []
                   \<and> map_option enabled (map_of (interfaces s2) i) = Some False
                   \<and> map_option status (map_of (health_results s2) i) = Some FAILED)
              \<and> (\<not> (retry_count (config s) \<le> consecutive_failures r \<or> loss \<ge> 100) \<longrightarrow>
                   s2 = s1 \<and> cmds = []
                   \<and> map_option enabled (map_of (interfaces s2) i) = Some True
                   \<and> map_option status (map_of (health_results s2) i) = Some (status r)
                   \<and> status r \<noteq> FAILED)))
       \<and> (\<not> enabled info \<longrightarrow>
           (\<exists>s2. monitor_interface run s i t t1 (lat, loss, msg) = Inr (s2, [])))"
proof (cases "enabled info")
  case False
  from check_recovery_returns[OF assms(2), of t t1 "(lat, loss, msg)"] obtain s2 b where
    "check_recovery s i t t1 (lat, loss, msg) = Inr (s2, b)" by blast
  with False assms(2) show ?thesis by (simp add: monitor_interface_def)
next
  case True
  obtain s1 r where
    c: "check_interface_health s i t1 (lat, loss, msg) = Inr (s1, r)"
    and k: "fst ` set (interfaces s1) = insert i (fst ` set (interfaces s))"
           "fst ` set (health_results s1) = insert i (fst ` set (health_results s))"
    and e1: "map_option enabled (map_of (interfaces s1) i) = Some True"
    and r1: "map_of (health_results s1) i = Some r"
    and st: "loss < 100 \<longrightarrow> status r \<noteq> FAILED"
    and f: "should_trigger_failover s1 i
              = Inr (retry_count (config s) \<le> consecutive_failures r \<or> loss \<ge> 100)"
    using assms(2) True
    by (simp add: check_interface_health_def should_trigger_failover_def Let_def
        AList.update_conv' keys_update)
  from assms(1) k have rp: "results_present s1"
    unfolding results_present_def by auto
  from e1 obtain info1 where i1: "map_of (interfaces s1) i = Some info1" by auto
  show ?thesis
  proof (cases "retry_count (config s) \<le> consecutive_failures r \<or> loss \<ge> 100")
    case trig: True
    from trigger_failover_result[OF rp i1, of run] obtain s2 cmds where
      t: "trigger_failover run s1 i = Inr (s2, cmds)"
      and rc: "reconfigure_routing run s2 = Inr cmds"
      and d: "map_option enabled (map_of (interfaces s2) i) = Some False"
             "map_option status (map_of (health_results s2) i) = Some FAILED"
      by blast
    from rc have ne: "cmds \<noteq> []" by (rule reconfigure_routing_starts_flush)
    have m: "monitor_interface run s i t t1 (lat, loss, msg) = Inr (s2, cmds)"
      using assms(2) True c f trig t by (simp add: monitor_interface_def)
    from True c m trig t ne d show ?thesis by blast
  next
    case no: False
    have m: "monitor_interface run s i t t1 (lat, loss, msg) = Inr (s1, [])"
      using assms(2) True c f no by (simp add: monitor_interface_def)
    from no st have "status r \<noteq> FAILED" by auto
    with True c m no e1 r1 show ?thesis by auto
  qed
qed

theorem monitor_interface_failover_iff_witness:
  "results_present boot_monitor \<and> results_present eth0_disabled
   \<and> (\<exists>s2 cmds. monitor_interface obliging_host boot_monitor ''eth0'' 5 5
                     (0, 100, ''Ping timeout'') = Inr (s2, cmds)
          \<and> cmds \<noteq> []
          \<and> map_option enabled (map_of (interfaces s2) ''eth0'') = Some False
          \<and> map_option status (map_of (health_results s2) ''eth0'') = Some FAILED)
   \<and> (\<exists>s2. monitor_interface obliging_host boot_monitor ''eth0'' 5 5 (30, 7, []) = Inr (s2, [])
          \<and> map_option enabled (map_of (interfaces s2) ''eth0'') = Some True
          \<and> map_option status (map_of (health_results s2) ''eth0'') = Some DEGRADED)
   \<and> (\<exists>s2. monitor_interface obliging_host eth0_disabled ''eth0'' 40 40
                (0, 100, ''Ping timeout'') = Inr (s2, []))"
proof -
  have p: "results_present boot_monitor"
    by (simp add: results_present_def probe_defs)
  have cfg: "config boot_monitor = default_config"
    by (simp add: boot_monitor_def config_new_monitor)
  have lost: "\<exists>s2 cmds. monitor_interface obliging_host boot_monitor ''eth0'' 5 5
                     (0, 100, ''Ping timeout'') = Inr (s2, cmds)
          \<and> cmds \<noteq> []
          \<and> map_option enabled (map_of (interfaces s2) ''eth0'') = Some False
          \<and> map_option status (map_of (health_results s2) ''eth0'') = Some FAILED"
    using monitor_interface_failover_iff[OF p boot_monitor_eth0,
            of 5 0 100 "''Ping timeout''" obliging_host 5]
    by auto
  have degraded: "\<exists>s2. monitor_interface obliging_host boot_monitor ''eth0'' 5 5 (30, 7, [])
                     = Inr (s2, [])
          \<and> map_option enabled (map_of (interfaces s2) ''eth0'') = Some True
          \<and> map_option status (map_of (health_results s2) ''eth0'') = Some DEGRADED"
  proof -
    from monitor_interface_failover_iff[OF p boot_monitor_eth0, of 5 30 7 "[]" obliging_host 5]
    obtain s1 r s2 cmds where
      c: "check_interface_health boot_monitor ''eth0'' 5 (30, 7, []) = Inr (s1, r)"
      and m: "monitor_interface obliging_host boot_monitor ''eth0'' 5 5 (30, 7, []) = Inr (s2, cmds)"
      and n: "\<not> (retry_count (config boot_monitor) \<le> consecutive_failures r \<or> (7::real) \<ge> 100) \<longrightarrow>
                   s2 = s1 \<and> cmds = []
                   \<and> map_option enabled (map_of (interfaces s2) ''eth0'') = Some True
                   \<and> map_option status (map_of (health_results s2) ''eth0'') = Some (status r)
                   \<and> status r \<noteq> FAILED"
      by auto
    from check_interface_health_failures[OF c boot_monitor_eth0]
    have "status r = DEGRADED" "consecutive_failures r = 1"
      by (simp_all add: cfg default_config_def)
    with n m show ?thesis by (auto simp add: cfg default_config_def)
  qed
  have pd: "results_present eth0_disabled"
    by (simp add: results_present_def eth0_disabled_def manual_interface_control_def probe_defs)
  have id: "map_of (interfaces eth0_disabled) ''eth0''
      = Some \<lparr>info_config = \<lparr>name = ''eth0'', gateway = ''192.168.100.1'', weight = 2\<rparr>,
             enabled = False, last_check = 0, info_consecutive_failures = 0, total_checks = 0,
             successful_checks = 0, failed_checks = 0, last_recovery_check = None,
             info_last_success = None\<rparr>"
    by (simp add: eth0_disabled_def manual_interface_control_def probe_defs)
  have disabled: "\<exists>s2. monitor_interface obliging_host eth0_disabled ''eth0'' 40 40
                (0, 100, ''Ping timeout'') = Inr (s2, [])"
    using monitor_interface_failover_iff[OF pd id,
            of 40 0 100 "''Ping timeout''" obliging_host 40]
    by simp
  from p pd lost degraded disabled show ?thesis by blast
qed

subsection \<open>Counters and uptime\<close>

lemma set_update_cases:
  "e \<in> set (AList.update k v al) \<Longrightarrow> e = (k, v) \<or> e \<in> set al"
  by (induction al) (auto split: if_splits)

lemma keys_set_enabled: "fst ` set (set_enabled i b ifs) = fst ` set ifs"
  by (force simp: set_enabled_def image_iff split: if_splits prod.splits)

lemma counters_update:
  assumes "counters_consistent s" "0 \<le> successful_checks v" "successful_checks v \<le> total_checks v"
  shows "counters_consistent (s\<lparr>interfaces := AList.update k v (interfaces s)\<rparr>)"
  using assms unfolding counters_consistent_def
  by (auto dest!: set_update_cases)

lemma counters_entry:
  "counters_consistent s \<Longrightarrow> map_of (interfaces s) i = Some info \<Longrightarrow>
   0 \<le> successful_checks info \<and> successful_checks info \<le> total_checks info"
  unfolding counters_consistent_def by (auto dest!: map_of_SomeD)

lemma counters_set_enabled:
  "counters_consistent s \<Longrightarrow> counters_consistent (s\<lparr>interfaces := set_enabled i b (interfaces s)\<rparr>)"
  unfolding counters_consistent_def set_enabled_def by (auto split: if_splits)

lemma invariant_initialize_entries:
  "monitor_invariant s \<Longrightarrow> monitor_invariant (initialize_entries cs t s)"
proof (induction cs t s rule: initialize_entries.induct)
  case (1 t s)
  then show ?case by simp
next
  case (2 c rest t s)
  show ?case
    unfolding initialize_entries.simps
  proof (rule "2.IH")
    from "2.prems" show "monitor_invariant
      (s\<lparr>interfaces :=
                AList.update (name c)
                  \<lparr>info_config = c, enabled = True, last_check = 0,
                   info_consecutive_failures = 0, total_checks = 0, successful_checks = 0,
                   failed_checks = 0, last_recovery_check = None, info_last_success = None\<rparr>
                  (interfaces s),
              health_results :=
                AList.update (name c)
                  \<lparr>hc_interface = name c, status = TESTING, latency = 0,
                   packet_loss = 0, timestamp = t, consecutive_failures = 0,
                   last_success = t, error_message = []\<rparr>
                  (health_results s)\<rparr>)"
      unfolding monitor_invariant_def counters_consistent_def results_present_def
      by (auto simp: keys_update dest!: set_update_cases)
  qed
qed

lemma invariant_new_monitor: "monitor_invariant (new_monitor cfg t)"
  unfolding new_monitor_def initialize_health_tracking_def
  by (rule invariant_initialize_entries)
     (simp add: monitor_invariant_def counters_consistent_def results_present_def)

lemma invariant_check:
  assumes "monitor_invariant s" "check_interface_health s i t ping = Inr (s1, r)"
  shows "monitor_invariant s1"
proof -
  from assms(2) obtain info where info: "map_of (interfaces s) i = Some info"
    by (auto simp: check_interface_health_def split: option.splits)
  from assms(1) info have c: "0 \<le> successful_checks info" "successful_checks info \<le> total_checks info"
    using counters_entry unfolding monitor_invariant_def by blast+
  from assms(2) info obtain info2 hr where
    s1: "s1 = s\<lparr>interfaces := AList.update i info2 (interfaces s),
                health_results := AList.update i hr (health_results s)\<rparr>"
    and i2: "0 \<le> successful_checks info2" "successful_checks info2 \<le> total_checks info2"
    using c by (auto simp: check_interface_health_def Let_def split: if_splits)
  from assms(1) i2 show ?thesis
    unfolding s1 monitor_invariant_def counters_consistent_def results_present_def
    by (auto simp: keys_update dest!: set_update_cases)
qed

lemma invariant_failover:
  assumes "monitor_invariant s" "trigger_failover run s i = Inr (s1, cmds)"
  shows "monitor_invariant s1"
proof -
  from assms(2) obtain info r where info: "map_of (interfaces s) i = Some info"
    and s1: "s1 = s\<lparr>interfaces := AList.update i (info\<lparr>enabled := False\<rparr>) (interfaces s),
                health_results := AList.update i (r\<lparr>status := FAILED\<rparr>) (health_results s)\<rparr>"
    by (auto simp: trigger_failover_def Let_def split: option.splits sum.splits)
  from assms(1) info have c: "0 \<le> successful_checks info" "successful_checks info \<le> total_checks info"
    using counters_entry unfolding monitor_invariant_def by blast+
  from assms(1) c show ?thesis
    unfolding s1 monitor_invariant_def counters_consistent_def results_present_def
    by (auto simp: keys_update dest!: set_update_cases)
qed

lemma invariant_manual:
  assumes "monitor_invariant s" "manual_interface_control s i a = Inr (s1, b)"
  shows "monitor_invariant s1"
proof (cases "map_of (interfaces s) i")
  case None
  with assms show ?thesis by (simp add: manual_interface_control_def)
next
  case (Some info)
  from assms(1) Some have c: "0 \<le> successful_checks info" "successful_checks info \<le> total_checks info"
    using counters_entry unfolding monitor_invariant_def by blast+
  from assms(2) Some consider "s1 = s"
    | r e st where "s1 = s\<lparr>interfaces := AList.update i (info\<lparr>enabled := e\<rparr>) (interfaces s),
                health_results := AList.update i (r\<lparr>status := st\<rparr>) (health_results s)\<rparr>"
    by (auto simp: manual_interface_control_def split: if_splits option.splits)
  then show ?thesis
  proof cases
    case 1
    with assms(1) show ?thesis by simp
  next
    case 2
    from assms(1) c show ?thesis
      unfolding 2 monitor_invariant_def counters_consistent_def results_present_def
      by (auto simp: keys_update dest!: set_update_cases)
  qed
qed

lemma invariant_recovery:
  assumes "monitor_invariant s" "check_recovery s i t t1 ping = Inr (s1, b)"
  shows "monitor_invariant s1"
proof (cases "map_of (interfaces s) i")
  case None
  with assms show ?thesis by (simp add: check_recovery_def)
next
  case (Some info)
  from assms(1) Some have c: "0 \<le> successful_checks info" "successful_checks info \<le> total_checks info"
    using counters_entry unfolding monitor_invariant_def by blast+
  let ?s0 = "s\<lparr>interfaces := AList.update i
                 (info\<lparr>last_recovery_check := Some t, enabled := True\<rparr>) (interfaces s)\<rparr>"
  from Some have "i \<in> fst ` set (interfaces s)"
    by (force dest: map_of_SomeD)
  then have inv0: "monitor_invariant ?s0"
    using assms(1) c unfolding monitor_invariant_def counters_consistent_def results_present_def
    by (auto simp: keys_update dest!: set_update_cases)
  from assms(2) Some consider "s1 = s"
    | s2 r where "check_interface_health ?s0 i t1 ping = Inr (s2, r)" "s1 = s2"
    | s2 r where "check_interface_health ?s0 i t1 ping = Inr (s2, r)"
                 "s1 = s2\<lparr>interfaces := set_enabled i False (interfaces s2)\<rparr>"
    by (auto simp: check_recovery_def Let_def split: if_splits sum.splits)
  then show ?thesis
  proof cases
    case 1
    with assms(1) show ?thesis by simp
  next
    case 2
    with invariant_check[OF inv0 2(1)] show ?thesis by simp
  next
    case 3
    from invariant_check[OF inv0 3(1)] show ?thesis
      unfolding 3(2) monitor_invariant_def results_present_def
      by (simp add: counters_set_enabled keys_set_enabled)
  qed
qed

lemma reachable_invariant: "reachable_monitor s \<Longrightarrow> monitor_invariant s"
proof (induction rule: reachable_monitor.induct)
  case (mon_init cfg t)
  show ?case by (rule invariant_new_monitor)
next
  case (mon_check s iface t ping s1 r)
  then show ?case using invariant_check by blast
next
  case (mon_failover s run iface s1 cmds)
  then show ?case using invariant_failover by blast
next
  case (mon_recovery s iface t t1 ping s1 b)
  then show ?case using invariant_recovery by blast
next
  case (mon_manual s iface action s1 b)
  then show ?case using invariant_manual by blast
qed

lemma uptime_in_range:
  assumes "0 \<le> successful_checks info" "successful_checks info \<le> total_checks info"
  shows "\<exists>u. uptime_percentage_of info = Inr u \<and> 0 \<le> u \<and> u \<le> 100"
proof -
  define d where "d = max (total_checks info) 1"
  define q where "q = real_of_int (successful_checks info) / real_of_int d"
  have d: "0 < d" by (simp add: d_def)
  have le: "successful_checks info \<le> d" using assms(2) by (simp add: d_def)
  have q1: "q \<le> 1" using d le by (simp add: q_def divide_le_eq_1)
  have q0: "0 \<le> q" using assms(1) d by (simp add: q_def)
  have "uptime_percentage_of info = Inr (q * 100)"
    using d by (simp add: uptime_percentage_of_def py_truediv_def q_def d_def)
  moreover have "0 \<le> q * 100" "q * 100 \<le> 100" using q0 q1 by simp_all
  ultimately show ?thesis by blast
qed

lemma stats_entries_in_range:
  assumes "\<forall>(i, info) \<in> set ifs. 0 \<le> successful_checks info \<and> successful_checks info \<le> total_checks info"
      and "fst ` set ifs \<subseteq> fst ` set hrs"
  shows "\<exists>stats. stats_entries ifs hrs = Inr stats \<and> map fst stats = map fst ifs
           \<and> (\<forall>(i, st) \<in> set stats. 0 \<le> uptime_percentage st \<and> uptime_percentage st \<le> 100)"
  using assms
proof (induction ifs)
  case Nil
  show ?case by simp
next
  case (Cons e ifs)
  obtain i info where e: "e = (i, info)" by (cases e)
  from Cons.prems e have "i \<in> fst ` set hrs" by simp
  then obtain r where r: "map_of hrs i = Some r"
    by (metis map_of_eq_None_iff not_Some_eq)
  from Cons.prems e have "0 \<le> successful_checks info" "successful_checks info \<le> total_checks info"
    by auto
  from uptime_in_range[OF this] obtain u where
    u: "uptime_percentage_of info = Inr u" "0 \<le> u" "u \<le> 100" by blast
  from Cons.prems have "\<forall>(i, info) \<in> set ifs. 0 \<le> successful_checks info \<and> successful_checks info \<le> total_checks info"
    "fst ` set ifs \<subseteq> fst ` set hrs" by auto
  from Cons.IH[OF this] obtain stats where
    st: "stats_entries ifs hrs = Inr stats" "map fst stats = map fst ifs"
        "\<forall>(i, st) \<in> set stats. 0 \<le> uptime_percentage st \<and> uptime_percentage st \<le> 100"
    by blast
  from e r u st show ?case by simp
qed


text \<open>
  C10.  In every monitor that the operations can produce, \<open>get_interface_stats\<close> returns
  (no division by zero and no missing key), with one entry per interface, and every
  reported \<open>uptime_percentage\<close> lies between 0 and 100.  The quotient is taken in the real
  numbers; rounding to a float is monotone and keeps 0 and 100, so the bounds carry over.
\<close>

theorem uptime_percentage_in_range:
  assumes "reachable_monitor s"
  shows "\<exists>stats. get_interface_stats s = Inr stats \<and> map fst stats = map fst (interfaces s)
           \<and> (\<forall>(i, st) \<in> set stats. 0 \<le> uptime_percentage st \<and> uptime_percentage st \<le> 100)"
proof -
  from reachable_invariant[OF assms] have "counters_consistent s" "results_present s"
    unfolding monitor_invariant_def by simp_all
  then show ?thesis
    unfolding get_interface_stats_def counters_consistent_def results_present_def
    by (rule stats_entries_in_range)
qed


theorem uptime_percentage_in_range_witness:
  "reachable_monitor boot_monitor
   \<and> (\<exists>stats. get_interface_stats boot_monitor = Inr stats
          \<and> map fst stats = [''eth0'', ''eth1'']
          \<and> (\<forall>(i, st) \<in> set stats. 0 \<le> uptime_percentage st \<and> uptime_percentage st \<le> 100))"
proof -
  have r: "reachable_monitor boot_monitor"
    unfolding boot_monitor_def by (rule mon_init)
  have k: "map fst (interfaces boot_monitor) = [''eth0'', ''eth1'']"
    by (simp add: boot_monitor_def new_monitor_def initialize_health_tracking_def
        default_config_def)
  from uptime_percentage_in_range[OF r] r k show ?thesis by simp
qed

section \<open>Properties of the interface detector\<close>

subsection \<open>The weight of a speed string\<close>

lemma str_nat_nonempty: "str_nat n \<noteq> []"
  by (subst str_nat.simps) simp

lemma length_str_nat: "0 < k \<Longrightarrow> n < 10 ^ k \<Longrightarrow> length (str_nat n) \<le> k"
proof (induction n arbitrary: k rule: str_nat.induct)
  case (1 n)
  show ?case
  proof (cases "n < 10")
    case True
    with "1.prems" show ?thesis by (simp add: str_nat_small)
  next
    case False
    with "1.prems" obtain j where k: "k = Suc j" and j: "0 < j"
      by (cases k; cases "k - 1") auto
    from "1.prems" k have "n div 10 < 10 ^ j"
      by (simp add: less_mult_imp_div_less mult.commute)
    from "1.IH"[OF False j this] False k show ?thesis
      by (simp add: str_nat_large)
  qed
qed

lemma int_of_digits_zeros: "int_of_digits (replicate z (CHR ''0'') @ ds) = int_of_digits ds"
proof -
  have "foldl (\<lambda>acc c. 10 * acc + digit_val c) 0 (replicate z (CHR ''0'')) = 0"
    by (induction z) (simp_all add: digit_val_def)
  then show ?thesis by (simp add: int_of_digits_def)
qed

lemma search_digits_none:
  assumes "\<forall>c \<in> set sp. \<not> is_digit c"
  shows "search_digits sp = None"
proof -
  from assms have d: "dropWhile (\<lambda>c. \<not> is_digit c) sp = []" by simp
  show ?thesis unfolding search_digits_def Let_def d by simp
qed

lemma search_digits_run:
  assumes "\<forall>c \<in> set pre. \<not> is_digit c" and "ds \<noteq> []" and "\<forall>c \<in> set ds. is_digit c"
      and "post = [] \<or> \<not> is_digit (hd post)"
  shows "search_digits (pre @ ds @ post) = Some ds"
proof -
  obtain d ds' where ds: "ds = d # ds'" using assms(2) by (cases ds) auto
  with assms(3) have d: "is_digit d" by simp
  have "dropWhile (\<lambda>c. \<not> is_digit c) (pre @ ds @ post) = ds @ post"
    using assms(1) d by (simp add: ds dropWhile_append2)
  moreover have "takeWhile is_digit post = []"
    using assms(4) by (cases post) auto
  then have "takeWhile is_digit (ds @ post) = ds"
    using assms(3) by (simp add: takeWhile_append2)
  ultimately show ?thesis using assms(2) by (simp add: search_digits_def Let_def)
qed

lemma is_digit_zero: "is_digit (CHR ''0'')"
  by (simp add: is_digit_def)

lemma suggest_weight_no_digit:
  "\<forall>c \<in> set sp. \<not> is_digit c \<Longrightarrow> suggest_weight_based_on_speed (Some sp) = Inr 1"
  by (simp add: suggest_weight_based_on_speed_def search_digits_none)

lemma suggest_weight_number:
  assumes "\<forall>c \<in> set pre. \<not> is_digit c" and "post = [] \<or> \<not> is_digit (hd post)"
  shows "suggest_weight_based_on_speed (Some (pre @ replicate z (CHR ''0'') @ str_nat n @ post))
       = (if z + length (str_nat n) \<le> 4300
          then Inr (if 1000 \<le> n then 3 else if 100 \<le> n then 2 else 1)
          else Inl ValueError)"
proof -
  let ?ds = "replicate z (CHR ''0'') @ str_nat n"
  have ne: "?ds \<noteq> []" by (simp add: str_nat_nonempty)
  have dg: "\<forall>c \<in> set ?ds. is_digit c"
    using str_nat_digits by (auto simp: is_digit_zero)
  from search_digits_run[OF assms(1) ne dg assms(2)]
  have s: "search_digits (pre @ replicate z (CHR ''0'') @ str_nat n @ post) = Some ?ds" by simp
  have v: "int_of_digits ?ds = n"
    by (simp add: int_of_digits_zeros int_of_digits_str_nat)
  show ?thesis
    by (simp add: suggest_weight_based_on_speed_def s py_int_def int_max_str_digits_def v
        str_nat_nonempty)
qed

lemma suggest_weight_mbps:
  assumes "length (str_nat n) \<le> 4300"
  shows "suggest_weight_based_on_speed (Some (str_nat n @ ''Mb/s''))
       = Inr (if 1000 \<le> n then 3 else if 100 \<le> n then 2 else 1)"
proof -
  have "\<not> is_digit (hd ''Mb/s'')" by (simp add: is_digit_def)
  then have "suggest_weight_based_on_speed (Some ([] @ replicate 0 (CHR ''0'') @ str_nat n @ ''Mb/s''))
       = (if 0 + length (str_nat n) \<le> 4300
          then Inr (if 1000 \<le> n then 3 else if 100 \<le> n then 2 else 1)
          else Inl ValueError)"
    by (intro suggest_weight_number) simp_all
  with assms show ?thesis by simp
qed

subsection \<open>Reading the report of ethtool\<close>

lemma split_acc_line:
  "c \<notin> set l \<Longrightarrow> split_acc c acc (l @ c # rest) = (rev acc @ l) # split_acc c [] rest"
  by (induction l arbitrary: acc) auto

lemma split_acc_lines:
  assumes "\<forall>l \<in> set ls. c \<notin> set l"
  shows "split_acc c [] (concat (map (\<lambda>l. l @ [c]) ls) @ rest) = ls @ split_acc c [] rest"
  using assms
proof (induction ls)
  case Nil
  show ?case by simp
next
  case (Cons l ls)
  then have "c \<notin> set l" by simp
  from split_acc_line[OF this, of "[]"] Cons show ?case by simp
qed

lemma split_once_no_occurrence:
  assumes "sep \<noteq> []" and "\<not> (\<exists>a b. l = a @ sep @ b)"
  shows "split_once sep l = None"
  using assms(2)
proof (induction l)
  case Nil
  show ?case by simp
next
  case (Cons x xs)
  have "take (length sep) (x # xs) \<noteq> sep"
  proof
    assume "take (length sep) (x # xs) = sep"
    then have "x # xs = [] @ sep @ drop (length sep) (x # xs)"
      by (metis append_Nil append_take_drop_id)
    with Cons.prems show False by blast
  qed
  moreover have "\<not> (\<exists>a b. xs = a @ sep @ b)"
  proof
    assume "\<exists>a b. xs = a @ sep @ b"
    then obtain a b where "xs = a @ sep @ b" by blast
    then have "x # xs = (x # a) @ sep @ b" by simp
    with Cons.prems show False by blast
  qed
  ultimately show ?case using Cons.IH by simp
qed

lemma split_once_without_first_char:
  assumes "sep = c # sep'" and "c \<notin> set l"
  shows "split_once sep l = None"
  using assms(2)
proof (induction l)
  case Nil
  show ?case by simp
next
  case (Cons x xs)
  then have "x \<noteq> c" by auto
  then have "take (length sep) (x # xs) \<noteq> sep" by (simp add: assms(1))
  with Cons show ?case by simp
qed

lemma split_once_after_indent:
  assumes "c \<notin> set indent" and "sep = c # sep'"
  shows "split_once sep (indent @ sep @ rest) = Some (indent, rest)"
  using assms(1)
proof (induction indent)
  case Nil
  show ?case by (simp add: assms(2))
next
  case (Cons x xs)
  then have "x \<noteq> c" by auto
  then have "take (length sep) ((x # xs) @ sep @ rest) \<noteq> sep" by (simp add: assms(2))
  with Cons show ?case by simp
qed

lemma is_digit_not_space: "is_digit c \<Longrightarrow> \<not> is_space c"
  by (auto simp: is_digit_def is_space_def)

lemma strip_speed_field: "strip (CHR '' '' # speed_field sp) = speed_field sp"
proof (cases sp)
  case Speed_unknown
  then show ?thesis by (simp add: speed_field_def strip_def is_space_def)
next
  case (Speed_mbps n)
  obtain d ds where ds: "str_nat n = d # ds"
    using str_nat_nonempty by (cases "str_nat n") auto
  then have "is_digit d" using str_nat_digits[of d n] by simp
  then have d: "\<not> is_space d" by (rule is_digit_not_space)
  have "is_space (CHR '' '')" by (simp add: is_space_def)
  then have "dropWhile is_space (CHR '' '' # str_nat n @ ''Mb/s'') = str_nat n @ ''Mb/s''"
    using d by (simp add: ds)
  moreover have "dropWhile is_space (rev (str_nat n @ ''Mb/s'')) = rev (str_nat n @ ''Mb/s'')"
    by (simp add: is_space_def)
  ultimately show ?thesis using Speed_mbps by (simp add: speed_field_def strip_def)
qed

lemma speed_field_no_label: "CHR ''S'' \<notin> set (CHR '' '' # speed_field sp)"
proof (cases sp)
  case Speed_unknown
  then show ?thesis by (simp add: speed_field_def)
next
  case (Speed_mbps n)
  have "CHR ''S'' \<notin> set (str_nat n)"
    using str_nat_digits[of "CHR ''S''" n] by (auto simp: is_digit_def)
  with Speed_mbps show ?thesis by (simp add: speed_field_def)
qed

lemma after_speed_label_line:
  assumes "set indent \<subseteq> {CHR '' '', CHR 0x09}"
  shows "after_speed_label (indent @ ''Speed: '' @ speed_field sp) = Some (CHR '' '' # speed_field sp)"
proof -
  from assms have i: "CHR ''S'' \<notin> set indent" by auto
  have "split_once ''Speed:'' (indent @ ''Speed:'' @ (CHR '' '' # speed_field sp))
      = Some (indent, CHR '' '' # speed_field sp)"
    by (rule split_once_after_indent[OF i]) simp
  moreover have "split_once ''Speed:'' (CHR '' '' # speed_field sp) = None"
    by (rule split_once_without_first_char[OF _ speed_field_no_label]) simp
  ultimately show ?thesis by (simp add: after_speed_label_def)
qed

lemma after_speed_label_none:
  "\<not> mentions_speed l \<Longrightarrow> after_speed_label l = None"
  unfolding mentions_speed_def after_speed_label_def
  by (simp add: split_once_no_occurrence)

lemma first_speed_line_skip:
  assumes "\<forall>l \<in> set before. \<not> mentions_speed l"
  shows "first_speed_line (before @ others) = first_speed_line others"
  using assms by (induction before) (simp_all add: after_speed_label_none)

lemma get_interface_speed_report:
  assumes "\<forall>l \<in> set before. CHR 0x0A \<notin> set l \<and> \<not> mentions_speed l"
      and "set indent \<subseteq> {CHR '' '', CHR 0x09}"
  shows "get_interface_speed (Ethtool_stdout (ethtool_report before indent sp rest)) speed_file
       = Some (speed_field sp)"
proof -
  let ?line = "indent @ ''Speed: '' @ speed_field sp"
  have nl: "CHR 0x0A \<notin> set ?line"
  proof -
    have "CHR 0x0A \<notin> set (speed_field sp)"
    proof (cases sp)
      case Speed_unknown
      then show ?thesis by (simp add: speed_field_def)
    next
      case (Speed_mbps n)
      have "CHR 0x0A \<notin> set (str_nat n)"
        using str_nat_digits[of "CHR 0x0A" n] by (auto simp: is_digit_def)
      with Speed_mbps show ?thesis by (simp add: speed_field_def)
    qed
    with assms(2) show ?thesis by auto
  qed
  have "ethtool_report before indent sp rest
      = concat (map (\<lambda>l. l @ [CHR 0x0A]) before) @ (?line @ CHR 0x0A # rest)"
    by (simp add: ethtool_report_def)
  moreover have "\<forall>l \<in> set before. CHR 0x0A \<notin> set l"
    using assms(1) by blast
  ultimately have "split_char (CHR 0x0A) (ethtool_report before indent sp rest)
      = before @ split_acc (CHR 0x0A) [] (?line @ CHR 0x0A # rest)"
    unfolding split_char_def by (simp only: split_acc_lines)
  also have "\<dots> = before @ ?line # split_acc (CHR 0x0A) [] rest"
    using split_acc_line[OF nl, of "[]" rest] by simp
  finally have "first_speed_line (split_char (CHR 0x0A) (ethtool_report before indent sp rest))
      = first_speed_line (?line # split_acc (CHR 0x0A) [] rest)"
    using assms(1) by (simp add: first_speed_line_skip)
  also have "\<dots> = Some (strip (CHR '' '' # speed_field sp))"
    using after_speed_label_line[OF assms(2), of sp] by simp
  finally show ?thesis
    by (simp add: get_interface_speed_def strip_speed_field)
qed

lemma split_acc_substring:
  "l \<in> set (split_acc c acc s) \<Longrightarrow> \<exists>a b. rev acc @ s = a @ l @ b"
proof (induction s arbitrary: acc)
  case Nil
  then have "l = rev acc" by simp
  then have "rev acc @ [] = [] @ l @ []" by simp
  then show ?case by blast
next
  case (Cons x xs)
  show ?case
  proof (cases "x = c")
    case True
    with Cons.prems consider "l = rev acc" | "l \<in> set (split_acc c [] xs)" by auto
    then show ?thesis
    proof cases
      case 1
      then have "rev acc @ x # xs = [] @ l @ (x # xs)" by simp
      then show ?thesis by blast
    next
      case 2
      from Cons.IH[OF this] obtain a b where "xs = a @ l @ b" by auto
      then have "rev acc @ x # xs = (rev acc @ x # a) @ l @ b" by simp
      then show ?thesis by blast
    qed
  next
    case False
    with Cons.prems have "l \<in> set (split_acc c (x # acc) xs)" by simp
    from Cons.IH[OF this] show ?thesis by simp
  qed
qed

lemma mentions_speed_line:
  assumes "l \<in> set (split_char c out)" and "mentions_speed l"
  shows "mentions_speed out"
proof -
  from assms(1) obtain a b where "out = a @ l @ b"
    using split_acc_substring[of l c "[]" out] by (auto simp: split_char_def)
  moreover from assms(2) obtain a' b' where "l = a' @ ''Speed:'' @ b'"
    unfolding mentions_speed_def by blast
  ultimately have "out = (a @ a') @ ''Speed:'' @ (b' @ b)" by simp
  then show ?thesis unfolding mentions_speed_def by blast
qed

lemma get_interface_speed_no_label:
  assumes "\<not> mentions_speed out"
  shows "get_interface_speed (Ethtool_stdout out) speed_file = None"
proof -
  have "\<forall>l \<in> set (split_char (CHR 0x0A) out). \<not> mentions_speed l"
    using assms mentions_speed_line by blast
  from first_speed_line_skip[OF this, of "[]"] show ?thesis
    by (simp add: get_interface_speed_def)
qed

lemma split_once_occurrence:
  assumes "sep \<noteq> []"
  shows "split_once sep (a @ sep @ b) \<noteq> None"
proof (induction a)
  case Nil
  obtain x xs where "sep @ b = x # xs" using assms by (cases "sep @ b") auto
  moreover have "take (length sep) (sep @ b) = sep" by simp
  ultimately show ?case by (metis append_Nil option.distinct(1) split_once.simps(2))
next
  case (Cons x a)
  show ?case
  proof (cases "take (length sep) (x # a @ sep @ b) = sep")
    case True
    then show ?thesis by simp
  next
    case False
    with Cons show ?thesis by simp
  qed
qed

lemma mentions_speed_iff: "mentions_speed l \<longleftrightarrow> split_once ''Speed:'' l \<noteq> None"
proof
  assume "mentions_speed l"
  then obtain a b where "l = a @ ''Speed:'' @ b" unfolding mentions_speed_def by blast
  then show "split_once ''Speed:'' l \<noteq> None"
    using split_once_occurrence[of "''Speed:''" a b] by simp
next
  assume ne: "split_once ''Speed:'' l \<noteq> None"
  show "mentions_speed l"
  proof (rule ccontr)
    assume "\<not> mentions_speed l"
    then have "\<not> (\<exists>a b. l = a @ ''Speed:'' @ b)"
      unfolding mentions_speed_def .
    then have "split_once ''Speed:'' l = None"
      by (rule split_once_no_occurrence[rotated]) simp
    with ne show False by contradiction
  qed
qed

lemma weight_of_speed_field:
  assumes "\<forall>n. sp = Speed_mbps n \<longrightarrow> n < 2 ^ 32"
  shows "suggest_weight_based_on_speed (Some (speed_field sp)) = Inr (weight_as_specified (Some sp))"
proof (cases sp)
  case Speed_unknown
  have "\<forall>c \<in> set ''Unknown!''. \<not> is_digit c" by (simp add: is_digit_def)
  from suggest_weight_no_digit[OF this] Speed_unknown show ?thesis
    by (simp add: speed_field_def weight_as_specified_def)
next
  case (Speed_mbps n)
  with assms have "n < 10 ^ 10" by simp
  then have "length (str_nat n) \<le> 10" by (intro length_str_nat) simp_all
  then have "length (str_nat n) \<le> 4300" by simp
  from suggest_weight_mbps[OF this] Speed_mbps show ?thesis
    by (simp add: speed_field_def weight_as_specified_def)
qed

lemma weight_of_sys_speed:
  assumes "v < 2 ^ 31"
  shows "get_interface_speed Ethtool_failed (Speed_value v)
           = (if 0 < v then Some (speed_field (Speed_mbps (nat v))) else None)"
    and "suggest_weight_based_on_speed (get_interface_speed Ethtool_failed (Speed_value v))
           = Inr (weight_as_specified (if 0 < v then Some (Speed_mbps (nat v)) else None))"
proof -
  show g: "get_interface_speed Ethtool_failed (Speed_value v)
           = (if 0 < v then Some (speed_field (Speed_mbps (nat v))) else None)"
    by (simp add: get_interface_speed_def speed_field_def str_int_def)
  show "suggest_weight_based_on_speed (get_interface_speed Ethtool_failed (Speed_value v))
           = Inr (weight_as_specified (if 0 < v then Some (Speed_mbps (nat v)) else None))"
  proof (cases "0 < v")
    case True
    from assms have "nat v < 2 ^ 32" by simp
    then have "\<forall>n. Speed_mbps (nat v) = Speed_mbps n \<longrightarrow> n < 2 ^ 32" by simp
    from weight_of_speed_field[OF this] True g show ?thesis by simp
  next
    case False
    with g show ?thesis
      by (simp add: suggest_weight_based_on_speed_def weight_as_specified_def)
  qed
qed

lemma str_nat_100: "str_nat 100 = ''100''"
  by (simp add: str_nat_large str_nat_small digit_char_def)

lemma str_nat_1000: "str_nat 1000 = ''1000''"
  by (simp add: str_nat_large str_nat_small digit_char_def)

text \<open>
  C7.  For every speed that the detector can report, the suggested weight is the one of
  the specification: 3 from 1000 Mb/s on, 2 from 100 Mb/s on, 1 otherwise, also when no
  speed is known.
  \<^item> When \<open>ethtool\<close> answers, the detector returns the text after the first \<open>Speed:\<close>, which
    \<open>ethtool\<close> prints as \<open><n>Mb/s\<close> with a 32-bit number or as \<open>Unknown!\<close>; a report
    without the label gives no speed.
  \<^item> When \<open>ethtool\<close> fails, the detector reads the kernel's integer from \<open>/sys\<close> and writes
    it as \<open><n>Mb/s\<close>; without a positive integer there is no speed.
  \<^item> The weight function itself is determined on every string: 1 for a string without
    a digit; for the first run of digits, the weight of its number, whatever stands
    before and after it; and \<open>ValueError\<close> when that run has more than 4300 digits.
  Mb/s is the only unit in which a speed reaches the weight function.
\<close>

theorem suggested_weight_follows_detected_speed:
  "((\<forall>l \<in> set before. CHR 0x0A \<notin> set l \<and> \<not> mentions_speed l)
      \<and> set indent \<subseteq> {CHR '' '', CHR 0x09} \<and> (\<forall>n. sp = Speed_mbps n \<longrightarrow> n < 2 ^ 32) \<longrightarrow>
      get_interface_speed (Ethtool_stdout (ethtool_report before indent sp rest)) speed_file
        = Some (speed_field sp)
      \<and> suggest_weight_based_on_speed (Some (speed_field sp))
        = Inr (weight_as_specified (Some sp)))
   \<and> (\<not> mentions_speed out \<longrightarrow> get_interface_speed (Ethtool_stdout out) speed_file = None)
   \<and> (v < 2 ^ 31 \<longrightarrow>
        get_interface_speed Ethtool_failed (Speed_value v)
          = (if 0 < v then Some (speed_field (Speed_mbps (nat v))) else None)
        \<and> suggest_weight_based_on_speed (get_interface_speed Ethtool_failed (Speed_value v))
          = Inr (weight_as_specified (if 0 < v then Some (Speed_mbps (nat v)) else None)))
   \<and> get_interface_speed Ethtool_failed No_file = None
   \<and> get_interface_speed Ethtool_failed Unreadable = None
   \<and> suggest_weight_based_on_speed None = Inr (weight_as_specified None)
   \<and> ((\<forall>c \<in> set field. \<not> is_digit c) \<longrightarrow> suggest_weight_based_on_speed (Some field) = Inr 1)
   \<and> ((\<forall>c \<in> set pre. \<not> is_digit c) \<and> (post = [] \<or> \<not> is_digit (hd post)) \<longrightarrow>
        suggest_weight_based_on_speed (Some (pre @ replicate z (CHR ''0'') @ str_nat m @ post))
          = (if z + length (str_nat m) \<le> 4300
             then Inr (if 1000 \<le> m then 3 else if 100 \<le> m then 2 else 1)
             else Inl ValueError))"
proof -
  have a: "(\<forall>l \<in> set before. CHR 0x0A \<notin> set l \<and> \<not> mentions_speed l)
      \<and> set indent \<subseteq> {CHR '' '', CHR 0x09} \<and> (\<forall>n. sp = Speed_mbps n \<longrightarrow> n < 2 ^ 32) \<longrightarrow>
      get_interface_speed (Ethtool_stdout (ethtool_report before indent sp rest)) speed_file
        = Some (speed_field sp)
      \<and> suggest_weight_based_on_speed (Some (speed_field sp))
        = Inr (weight_as_specified (Some sp))"
    using get_interface_speed_report weight_of_speed_field by blast
  have b: "\<not> mentions_speed out \<longrightarrow> get_interface_speed (Ethtool_stdout out) speed_file = None"
    using get_interface_speed_no_label by blast
  have c: "v < 2 ^ 31 \<longrightarrow>
        get_interface_speed Ethtool_failed (Speed_value v)
          = (if 0 < v then Some (speed_field (Speed_mbps (nat v))) else None)
        \<and> suggest_weight_based_on_speed (get_interface_speed Ethtool_failed (Speed_value v))
          = Inr (weight_as_specified (if 0 < v then Some (Speed_mbps (nat v)) else None))"
    using weight_of_sys_speed by blast
  have d: "get_interface_speed Ethtool_failed No_file = None"
          "get_interface_speed Ethtool_failed Unreadable = None"
          "suggest_weight_based_on_speed None = Inr (weight_as_specified None)"
    by (simp_all add: get_interface_speed_def suggest_weight_based_on_speed_def
        weight_as_specified_def)
  have e: "(\<forall>c \<in> set field. \<not> is_digit c) \<longrightarrow> suggest_weight_based_on_speed (Some field) = Inr 1"
    using suggest_weight_no_digit by blast
  have f: "(\<forall>c \<in> set pre. \<not> is_digit c) \<and> (post = [] \<or> \<not> is_digit (hd post)) \<longrightarrow>
        suggest_weight_based_on_speed (Some (pre @ replicate z (CHR ''0'') @ str_nat m @ post))
          = (if z + length (str_nat m) \<le> 4300
             then Inr (if 1000 \<le> m then 3 else if 100 \<le> m then 2 else 1)
             else Inl ValueError)"
    using suggest_weight_number by blast
  from a b c d e f show ?thesis by (intro conjI)
qed

theorem suggested_weight_follows_detected_speed_witness:
  "get_interface_speed
     (Ethtool_stdout (ethtool_report [''Settings for eth0:''] [CHR 0x09] (Speed_mbps 1000)
        ''  Duplex: Full'')) No_file = Some ''1000Mb/s''
   \<and> suggest_weight_based_on_speed (Some ''1000Mb/s'') = Inr 3
   \<and> get_interface_speed (Ethtool_stdout ''Settings for lo:'') No_file = None
   \<and> suggest_weight_based_on_speed (get_interface_speed Ethtool_failed (Speed_value 100)) = Inr 2
   \<and> suggest_weight_based_on_speed (Some ''Unknown!'') = Inr 1
   \<and> suggest_weight_based_on_speed (Some ''speed 0100Mb/s'') = Inr 2"
proof -
  have h1: "\<forall>l \<in> set [''Settings for eth0:'']. CHR 0x0A \<notin> set l \<and> \<not> mentions_speed l"
    by (simp add: mentions_speed_iff)
  have h2: "set [CHR 0x09] \<subseteq> {CHR '' '', CHR 0x09}" by simp
  have h3: "\<forall>n. Speed_mbps 1000 = Speed_mbps n \<longrightarrow> n < 2 ^ 32" by simp
  have h4: "\<not> mentions_speed ''Settings for lo:''"
    by (simp add: mentions_speed_iff)
  have h5: "(100::int) < 2 ^ 31" by simp
  have h6: "\<forall>c \<in> set ''Unknown!''. \<not> is_digit c" by (simp add: is_digit_def)
  have h8: "\<forall>c \<in> set ''speed ''. \<not> is_digit c" by (simp add: is_digit_def)
  have h9: "''Mb/s'' = [] \<or> \<not> is_digit (hd ''Mb/s'')" by (simp add: is_digit_def)
  from suggested_weight_follows_detected_speed [where before = "[''Settings for eth0:'']" and indent = "[CHR 0x09]"
            and sp = "Speed_mbps 1000" and rest = "''  Duplex: Full''" and speed_file = No_file
            and out = "''Settings for lo:''" and v = 100 and field = "''Unknown!''"
            and pre = "''speed ''" and post = "''Mb/s''" and z = 1 and m = 100]
       h1 h2 h3 h4 h5 h6 h8 h9
  show ?thesis
    by (auto simp add: speed_field_def weight_as_specified_def str_nat_100 str_nat_1000)
qed


end
